theory Spec2Isabelle
  imports Complex_Main "HOL-Library.Char_ord" "HOL-Library.List_Lexorder"
begin

section \<open>Command line and validation (script/single\_cell\_analysis.py, lines 49--108)\<close>

text \<open>
  The script is a straight-line program around library calls. Its own logic is modelled
  here: the command-line record, the validation that ends the process with a message
  (\<open>sys.exit\<close>), and the order in which the stages run. What the file system and the
  input files hold is read from an environment record.
\<close>

record args =
  input :: string
  format :: string
  output_dir :: string  \<comment> \<open>\<open>args.output\<close>\<close>
  resolution :: rat
  auto_resolution :: bool
  metadata :: "string option"
  batch :: "string option"
  clusters :: "string option"
  GEP_supplied :: "string option"  \<comment> \<open>the text after \<open>--GEP\<close>, \<open>None\<close> when the option is absent\<close>
  annotation :: bool
  gsea :: bool
  cpus :: int

record env =
  path_exists :: "string \<Rightarrow> bool"          \<comment> \<open>\<open>os.path.exists\<close>\<close>
  path_isdir :: "string \<Rightarrow> bool"           \<comment> \<open>\<open>os.path.isdir\<close>\<close>
  metadata_columns :: "string \<Rightarrow> string list"  \<comment> \<open>columns of \<open>pd.read_csv(path, index_col=0)\<close>\<close>
  h5ad_obs_columns :: "string \<Rightarrow> string list"  \<comment> \<open>\<open>sc.read(path).obs.columns\<close>\<close>

text \<open>\<open>str.lower\<close> on the letters A to Z; every other byte is left as it is.\<close>

definition lower_char :: "char \<Rightarrow> char" where
  "lower_char c =
     (if (65::nat) \<le> of_char c \<and> of_char c \<le> (90::nat) then char_of (of_char c + (32::nat)) else c)"

definition lower :: "string \<Rightarrow> string" where
  "lower s = map lower_char s"

text \<open>Line 61: \<open>type=lambda x: (str(x).lower() == 'true')\<close>.\<close>

definition GEP_type :: "string \<Rightarrow> bool" where
  "GEP_type x = (lower x = ''true'')"

text \<open>argparse applies \<open>type\<close> to a supplied value only; the default \<open>True\<close> is taken as it is.\<close>

definition parse_GEP :: "string option \<Rightarrow> bool" where
  "parse_GEP v = (case v of None \<Rightarrow> True | Some x \<Rightarrow> GEP_type x)"

definition GEP :: "args \<Rightarrow> bool" where
  "GEP a = parse_GEP (GEP_supplied a)"

text \<open>
  Equality up to the case of letters, written from the words of the specification: two
  strings of the same length whose characters agree position by position, where a letter
  agrees with its other case.
\<close>

definition same_letter :: "char \<Rightarrow> char \<Rightarrow> bool" where
  "same_letter a b =
     (a = b
      \<or> ((65::nat) \<le> of_char a \<and> of_char a \<le> (90::nat) \<and> of_char b = of_char a + (32::nat))
      \<or> ((65::nat) \<le> of_char b \<and> of_char b \<le> (90::nat) \<and> of_char a = of_char b + (32::nat)))"

definition eq_ignore_case :: "string \<Rightarrow> string \<Rightarrow> bool" where
  "eq_ignore_case s t = list_all2 same_letter s t"

text \<open>\<open>s[-k:]\<close>: the last \<open>k\<close> characters, the whole string when it is shorter.\<close>

definition suffix_from :: "nat \<Rightarrow> string \<Rightarrow> string" where
  "suffix_from k s = drop (length s - k) s"

text \<open>\<open>os.path.join\<close> of a directory and a relative file name.\<close>

definition path_join :: "string \<Rightarrow> string \<Rightarrow> string" where
  "path_join d f =
     (if f \<noteq> [] \<and> hd f = CHR ''/'' then f
      else if d = [] \<or> last d = CHR ''/'' then d @ f
      else d @ ''/'' @ f)"

text \<open>Lines 68--88: format, input and clusters. \<open>Some msg\<close> is \<open>sys.exit(msg)\<close>.\<close>

definition check_input :: "env \<Rightarrow> args \<Rightarrow> string option" where
  "check_input e a =
     (if \<not> path_exists e (input a) then Some ''The input path does not exist.''
      else if format a = ''csv'' then
        (if suffix_from 4 (input a) \<noteq> ''.csv'' then Some ''The input file is not a CSV file.''
         else None)
      else if format a = ''10x'' then
        (if \<not> path_exists e (path_join (input a) ''matrix.mtx'')
            \<and> \<not> path_exists e (path_join (input a) ''matrix.mtx.gz'')
         then Some ''Cannot find 'matrix.mtx' file in the input directory.''
         else if \<not> path_exists e (path_join (input a) ''genes.tsv'')
            \<and> \<not> path_exists e (path_join (input a) ''genes.tsv.gz'')
            \<and> \<not> path_exists e (path_join (input a) ''features.tsv'')
            \<and> \<not> path_exists e (path_join (input a) ''features.tsv.gz'')
         then Some ''Cannot find 'genes.tsv' or 'features.tsv' file in the input directory.''
         else if \<not> path_exists e (path_join (input a) ''barcodes.tsv'')
            \<and> \<not> path_exists e (path_join (input a) ''barcodes.tsv.gz'')
         then Some ''Cannot find 'barcodes.tsv' file in the input directory.''
         else None)
      else if format a = ''h5ad'' then
        (if suffix_from 5 (input a) \<noteq> ''.h5ad'' then Some ''The input file is not a h5ad file.''
         else if clusters a = None
         then Some ''Need to speficy clusters to be analyzed with a h5ad file.''
         else None)
      else Some ''The format can only be '10x' or 'csv'.'')"

text \<open>Lines 90--92.\<close>

definition check_output :: "env \<Rightarrow> args \<Rightarrow> string option" where
  "check_output e a =
     (if \<not> path_isdir e (output_dir a) then Some ''The output directory does not exist.'' else None)"

text \<open>Lines 94--99.\<close>

definition check_metadata :: "env \<Rightarrow> args \<Rightarrow> string option" where
  "check_metadata e a =
     (case metadata a of
        None \<Rightarrow> None
      | Some m \<Rightarrow>
          (if \<not> path_exists e m then Some ''The metadata file does not exist.''
           else if suffix_from 4 m \<noteq> ''.csv'' then Some ''The metadata file is not a CSV file.''
           else None))"

text \<open>Lines 101--108.\<close>

definition check_batch :: "env \<Rightarrow> args \<Rightarrow> string option" where
  "check_batch e a =
     (case batch a of
        None \<Rightarrow> None
      | Some b \<Rightarrow>
          (if metadata a = None \<and> format a \<noteq> ''h5ad''
           then Some ''Please provide the metadata file for batch correction with --metadata METADATA.''
           else (case metadata a of
                   None \<Rightarrow> None
                 | Some m \<Rightarrow>
                     (if b \<notin> set (metadata_columns e m)
                      then Some ''The batch column is not in the metadata file.''
                      else None))))"

text \<open>The checks in the order of the script; the first that exits decides.\<close>

definition first_exit :: "string option list \<Rightarrow> string option" where
  "first_exit cs = (case filter (\<lambda>c. c \<noteq> None) cs of [] \<Rightarrow> None | c # _ \<Rightarrow> c)"

definition validate :: "env \<Rightarrow> args \<Rightarrow> string option" where
  "validate e a = first_exit [check_input e a, check_output e a, check_metadata e a, check_batch e a]"

section \<open>The order of the stages (lines 111--298)\<close>

text \<open>
  Each library call or file write of the script is one action; a run that no library call
  interrupts performs the list of actions that \<open>main\<close> returns, and a run that ends in
  \<open>sys.exit\<close> returns the message.
\<close>

datatype action =
    ReadH5ad string
  | SubsetClusters "string list"
  | ReadCsv string
  | Read10x string
  | VarNamesMakeUnique
  | FilterCells nat
  | FilterGenes nat
  | CalculateQcMetrics
  | FilterPctCountsMt rat
  | GEPFromRaw
  | GEPCopy
  | NormalizeTotal rat
  | Log1p
  | HighlyVariableGenes
  | RegressOut
  | Scale
  | Pca
  | BatchFromMetadata string
  | HarmonyIntegrate string string
  | Neighbors nat
  | Umap
  | AutoResolutionSearch
  | Louvain rat
  | ScMatchAnnotation
  | PlotUmap string
  | NormalizeGEP rat
  | RankGenesGroups
  | RunGSEAPY
  | WriteFile string

text \<open>Line 117: \<open>[x.strip() for x in args.clusters.split(',')]\<close>.\<close>

fun split_on :: "char \<Rightarrow> string \<Rightarrow> string list" where
  "split_on c [] = [[]]"
| "split_on c (x # xs) =
     (if x = c then [] # split_on c xs
      else (case split_on c xs of [] \<Rightarrow> [[x]] | w # ws \<Rightarrow> (x # w) # ws))"

definition is_space :: "char \<Rightarrow> bool" where
  "is_space c = (c \<in> set [CHR '' '', CHR 0x09, CHR 0x0A, CHR 0x0B, CHR 0x0C, CHR 0x0D,
                            CHR 0x1C, CHR 0x1D, CHR 0x1E, CHR 0x1F])"

definition strip :: "string \<Rightarrow> string" where
  "strip s = rev (dropWhile is_space (rev (dropWhile is_space s)))"

definition cluster_subset :: "string \<Rightarrow> string list" where
  "cluster_subset cs = map strip (split_on (CHR '','') cs)"

text \<open>
  Lines 115--164. The batch block sits inside the branch of the 10x and csv formats.
  \<open>Inl\<close> is the message with which the run ends; \<open>args.clusters.split\<close> on an absent
  option is an \<open>AttributeError\<close>.
\<close>

definition preprocessing :: "env \<Rightarrow> args \<Rightarrow> string + action list" where
  "preprocessing e a =
     (if format a = ''h5ad'' then
        (case clusters a of
           None \<Rightarrow> Inl ''AttributeError''
         | Some cs \<Rightarrow>
             Inr ([ReadH5ad (input a), SubsetClusters (cluster_subset cs)]
                  @ (if GEP a then [GEPFromRaw] else [])))
      else
        (let loaded =
               (if format a = ''csv'' then [ReadCsv (input a)]
                else if format a = ''10x'' then [Read10x (input a)]
                else [])
               @ [VarNamesMakeUnique, FilterCells 200, FilterGenes 3, CalculateQcMetrics,
                  FilterPctCountsMt 30]
               @ (if GEP a then [GEPCopy] else [])
               @ [NormalizeTotal 10000, Log1p, HighlyVariableGenes, RegressOut, Scale, Pca]
         in case batch a of
              None \<Rightarrow> Inr loaded
            | Some b \<Rightarrow>
                (if metadata a \<noteq> None then
                   Inr (loaded @ [BatchFromMetadata b, HarmonyIntegrate b ''X_pca''])
                 else if format a = ''h5ad'' \<and> b \<notin> set (h5ad_obs_columns e (input a)) then
                   Inl ''The batch column is not in the Anndata object.''
                 else Inr (loaded @ [HarmonyIntegrate b ''X_pca'']))))"

text \<open>Lines 167--298, after the preprocessing.\<close>

definition analysis :: "args \<Rightarrow> action list" where
  "analysis a =
     [Neighbors 20, Umap]
     @ (if auto_resolution a then [AutoResolutionSearch] else [Louvain (resolution a)])
     @ (if annotation a
        then [WriteFile (path_join (output_dir a) ''cluster_mean_exp.csv''), ScMatchAnnotation]
        else [])
     @ [PlotUmap ''_cluster.png'']
     @ (if batch a \<noteq> None then [PlotUmap ''_batch.png''] else [])
     @ (if annotation a then [PlotUmap ''_cell_type.png''] else [])
     @ (if GEP a
        then [NormalizeGEP 1000000, WriteFile (path_join (output_dir a) ''GEP.txt'')]
        else [])
     @ [RankGenesGroups,
        WriteFile (path_join (output_dir a) ''scanpyobj.h5ad''),
        WriteFile (path_join (output_dir a) ''cluster_DEGs.csv'')]
     @ (if gsea a then [RunGSEAPY, WriteFile (path_join (output_dir a) ''GSEA_results.csv'')] else [])"

definition main :: "env \<Rightarrow> args \<Rightarrow> string + action list" where
  "main e a =
     (case validate e a of
        Some msg \<Rightarrow> Inl msg
      | None \<Rightarrow>
          (case preprocessing e a of
             Inl msg \<Rightarrow> Inl msg
           | Inr pre \<Rightarrow> Inr (pre @ analysis a)))"

text \<open>A file system in which every path exists, and a metadata table with one column.\<close>

definition env_ok :: env where
  "env_ok = \<lparr> path_exists = (\<lambda>p. True), path_isdir = (\<lambda>p. True),
              metadata_columns = (\<lambda>p. [''PatientID'']), h5ad_obs_columns = (\<lambda>p. [''louvain'']) \<rparr>"

definition args_10x :: args where
  "args_10x = \<lparr> input = ''data'', format = ''10x'', output_dir = ''out'', resolution = 6 / 10,
     auto_resolution = False, metadata = None, batch = None, clusters = None,
     GEP_supplied = None, annotation = False, gsea = False, cpus = 1 \<rparr>"


definition args_GEP_yes :: args where
  "args_GEP_yes = args_10x \<lparr> GEP_supplied := Some ''yes'' \<rparr>"

section \<open>Values shared by the numerical stages\<close>

datatype py_error = KeyError | IndexError | ValueError

text \<open>
  A floating-point number is its exact value, or one of the three special values. The
  comparisons are those of IEEE 754: every comparison with NaN is false.
\<close>

datatype npfloat = Finite rat | PosInf | NegInf | NaN

fun fle :: "npfloat \<Rightarrow> npfloat \<Rightarrow> bool" where
  "fle (Finite a) (Finite b) = (a \<le> b)"
| "fle (Finite a) PosInf = True"
| "fle (Finite a) NegInf = False"
| "fle PosInf PosInf = True"
| "fle PosInf (Finite b) = False"
| "fle PosInf NegInf = False"
| "fle NegInf (Finite b) = True"
| "fle NegInf PosInf = True"
| "fle NegInf NegInf = True"
| "fle NaN y = False"
| "fle x NaN = False"

definition fge :: "npfloat \<Rightarrow> npfloat \<Rightarrow> bool" where
  "fge x y = fle y x"

text \<open>The doubles that the literals \<open>1e-2\<close> and \<open>0.05\<close> denote, and the integer \<open>2\<close>.\<close>

definition double_1e_2 :: npfloat where
  "double_1e_2 = Finite (5764607523034235 / 2 ^ 59)"

definition double_0_05 :: npfloat where
  "double_0_05 = Finite (3602879701896397 / 2 ^ 56)"

definition default_logfc_threshold :: npfloat where
  "default_logfc_threshold = Finite 2"

text \<open>\<open>Series.unique()\<close>: the distinct values in the order of their first appearance.\<close>

definition unique :: "'a list \<Rightarrow> 'a list" where
  "unique xs = rev (remdups (rev xs))"

section \<open>Differential expression result and enrichment (lines 6--46, 282--298)\<close>

text \<open>
  \<open>adata.uns['rank_genes_groups']\<close>: under each key a record array with one field per
  cluster, each field one entry per ranked gene. A key is a partial map from the cluster
  to its field.
\<close>

record rank_genes_groups =
  names :: "string \<rightharpoonup> string list"
  scores :: "string \<rightharpoonup> npfloat list"
  logfoldchanges :: "string \<rightharpoonup> npfloat list"
  pvals :: "string \<rightharpoonup> npfloat list"
  pvals_adj :: "string \<rightharpoonup> npfloat list"

definition field :: "(string \<rightharpoonup> 'a) \<Rightarrow> string \<Rightarrow> py_error + 'a" where
  "field arr g = (case arr g of None \<Rightarrow> Inl KeyError | Some v \<Rightarrow> Inr v)"

text \<open>
  Lines 13--21 for one cluster. The product of the three boolean arrays is their
  elementwise conjunction. The fields of one result have one length; fields of different
  lengths are taken not to broadcast, and an index beyond the names raises.
\<close>

definition select_degs :: "rank_genes_groups \<Rightarrow> npfloat \<Rightarrow> string \<Rightarrow> py_error + string list" where
  "select_degs R logfc_threshold celltype =
     (case (logfoldchanges R celltype, pvals_adj R celltype, pvals R celltype) of
        (Some lfc, Some padj, Some p) \<Rightarrow>
          (let indlist_logfc = map (\<lambda>v. fge v logfc_threshold) lfc;
               indlist_adjp = map (\<lambda>v. fle v double_1e_2) padj;
               indlist_p = map (\<lambda>v. fle v double_1e_2) p
           in if length indlist_adjp \<noteq> length indlist_logfc
                 \<or> length indlist_p \<noteq> length indlist_logfc
              then Inl ValueError
              else
                (let indlist = map2 (\<and>) (map2 (\<and>) indlist_logfc indlist_adjp) indlist_p;
                     ind = filter (\<lambda>x. indlist ! x) [0..<length indlist]
                 in (case names R celltype of
                       None \<Rightarrow> Inl KeyError
                     | Some nm \<Rightarrow>
                         (if list_all (\<lambda>x. x < length nm) ind then Inr (map (\<lambda>x. nm ! x) ind)
                          else Inl IndexError))))
      | _ \<Rightarrow> Inl KeyError)"

text \<open>One row of the table \<open>res2d\<close> that the enrichment service returns.\<close>

record enr_row =
  Gene_set :: string
  Term :: string
  Overlap :: string
  P_value :: npfloat
  Adjusted_P_value :: npfloat
  Genes :: string

text \<open>
  \<open>gp.enrichr(gene_list, gene_sets, organism, description, no_plot)\<close> with the gene sets
  and the organism fixed: from the gene list and the description to \<open>res2d\<close>.
\<close>

type_synonym enrichr = "string list \<Rightarrow> string \<Rightarrow> enr_row list"

text \<open>
  Lines 12--33. One entry per query sent: the cluster (\<open>cluster_list\<close>), the gene list
  submitted, and the table received (\<open>df_list\<close>).
\<close>

fun enrich_clusters ::
  "enrichr \<Rightarrow> rank_genes_groups \<Rightarrow> npfloat \<Rightarrow> string list
     \<Rightarrow> py_error + (string \<times> string list \<times> enr_row list) list" where
  "enrich_clusters enr R thr [] = Inr []"
| "enrich_clusters enr R thr (celltype # rest) =
     (case select_degs R thr celltype of
        Inl err \<Rightarrow> Inl err
      | Inr degs \<Rightarrow>
          (if degs = [] then enrich_clusters enr R thr rest
           else (case enrich_clusters enr R thr rest of
                   Inl err \<Rightarrow> Inl err
                 | Inr qs \<Rightarrow> Inr ((celltype, degs, enr degs celltype) # qs))))"

record out_row =
  Cluster :: string
  row :: enr_row

datatype message = NoPathway npfloat string
  \<comment> \<open>\<open>'No pathway with an adjusted P-value less than the cutoff (={}) for cluster {}'\<close>\<close>

text \<open>Lines 37--44: the rows kept, and the messages printed.\<close>

fun concat_significant :: "npfloat \<Rightarrow> (string \<times> enr_row list) list \<Rightarrow> out_row list \<times> message list" where
  "concat_significant cutoff [] = ([], [])"
| "concat_significant cutoff ((cluster_ind, df_c) # rest) =
     (let kept = filter (\<lambda>r. fle (Adjusted_P_value r) cutoff) df_c;
          tagged = map (\<lambda>r. \<lparr> Cluster = cluster_ind, row = r \<rparr>) kept;
          (df, printed) = concat_significant cutoff rest
      in if length tagged > 0 then (tagged @ df, printed)
         else (df, NoPathway cutoff cluster_ind # printed))"

definition celltypes :: "string list \<Rightarrow> string list" where
  "celltypes labels = sort (unique labels)"

definition runGSEAPY ::
  "enrichr \<Rightarrow> rank_genes_groups \<Rightarrow> string list \<Rightarrow> npfloat \<Rightarrow> npfloat
     \<Rightarrow> py_error + out_row list \<times> message list" where
  "runGSEAPY enr R labels cutoff logfc_threshold =
     (case enrich_clusters enr R logfc_threshold (celltypes labels) of
        Inl err \<Rightarrow> Inl err
      | Inr qs \<Rightarrow> Inr (concat_significant cutoff (map (\<lambda>(c, degs, res). (c, res)) qs)))"

text \<open>Line 297: the call with the default cutoff and the default fold-change threshold.\<close>

definition gsea_stage :: "enrichr \<Rightarrow> rank_genes_groups \<Rightarrow> string list \<Rightarrow> py_error + out_row list \<times> message list" where
  "gsea_stage enr R labels = runGSEAPY enr R labels double_0_05 default_logfc_threshold"

text \<open>
  The marker genes of a cluster in the words of the specification: the names of the ranked
  genes whose log-fold-change is at least the threshold, whose adjusted p-value is at most
  0.01 and whose raw p-value is at most 0.01.
\<close>

definition passes_thresholds :: "npfloat \<Rightarrow> string \<times> npfloat \<times> npfloat \<times> npfloat \<Rightarrow> bool" where
  "passes_thresholds thr g =
     (case g of (name, lfc, padj, p) \<Rightarrow> fge lfc thr \<and> fle padj double_1e_2 \<and> fle p double_1e_2)"

definition marker_genes :: "rank_genes_groups \<Rightarrow> npfloat \<Rightarrow> string \<Rightarrow> string list" where
  "marker_genes R thr c =
     map fst (filter (passes_thresholds thr)
       (zip (the (names R c)) (zip (the (logfoldchanges R c)) (zip (the (pvals_adj R c)) (the (pvals R c))))))"

text \<open>The test was run for a cluster: its four fields are there, one entry per gene.\<close>

definition tested :: "rank_genes_groups \<Rightarrow> nat \<Rightarrow> string \<Rightarrow> bool" where
  "tested R n c =
     (case (names R c, logfoldchanges R c, pvals_adj R c, pvals R c, scores R c) of
        (Some nm, Some lfc, Some padj, Some p, Some sc) \<Rightarrow>
           length nm = n \<and> length lfc = n \<and> length padj = n
           \<and> length p = n \<and> length sc = n
      | _ \<Rightarrow> False)"

text \<open>A result for three clusters and three genes, and an enrichment service.\<close>

definition ex_labels :: "string list" where
  "ex_labels = [''1'', ''0'', ''2'', ''1'', ''0'']"

definition ex_R :: rank_genes_groups where
  "ex_R = \<lparr>
     names = [''0'' \<mapsto> [''G1'', ''G2'', ''G3''], ''1'' \<mapsto> [''G3'', ''G1'', ''G2''],
              ''2'' \<mapsto> [''G2'', ''G3'', ''G1'']],
     scores = [''0'' \<mapsto> [Finite 9, Finite 2, Finite (-4)], ''1'' \<mapsto> [Finite 8, Finite 1, Finite (-1)],
               ''2'' \<mapsto> [Finite 7, Finite 6, Finite (-5)]],
     logfoldchanges = [''0'' \<mapsto> [Finite 3, Finite 1, NaN], ''1'' \<mapsto> [Finite (5 / 2), Finite 0, Finite (-3)],
               ''2'' \<mapsto> [Finite 2, PosInf, Finite (-2)]],
     pvals = [''0'' \<mapsto> [Finite (1 / 1000), Finite (1 / 1000), Finite (1 / 1000)],
              ''1'' \<mapsto> [Finite (1 / 200), Finite (1 / 2), Finite (1 / 2)],
              ''2'' \<mapsto> [Finite (1 / 100), Finite (1 / 50), Finite 0]],
     pvals_adj = [''0'' \<mapsto> [Finite (1 / 500), Finite (1 / 500), Finite (1 / 500)],
              ''1'' \<mapsto> [Finite (1 / 50), Finite 1, Finite 1],
              ''2'' \<mapsto> [Finite (1 / 100), Finite (1 / 25), Finite 0]] \<rparr>"

definition ex_row :: "string \<Rightarrow> rat \<Rightarrow> enr_row" where
  "ex_row t q = \<lparr> Gene_set = ''GO_Biological_Process_2021'', Term = t, Overlap = ''1/10'',
                  P_value = Finite (q / 2), Adjusted_P_value = Finite q, Genes = ''G'' \<rparr>"

definition ex_enrichr :: enrichr where
  "ex_enrichr gene_list description =
     (if description = ''0'' then [ex_row ''a'' (1 / 100), ex_row ''b'' (1 / 5)]
      else [ex_row ''c'' (1 / 2)])"

section \<open>Cluster labels as numbers (line 237)\<close>

text \<open>
  \<open>int(s)\<close> on a text of bytes: white space around, an optional sign, decimal digits with
  single underscores between digits. \<open>None\<close> is the \<open>ValueError\<close>.
\<close>

definition is_digit :: "char \<Rightarrow> bool" where
  "is_digit c = ((48::nat) \<le> of_char c \<and> of_char c \<le> (57::nat))"

definition digit_val :: "char \<Rightarrow> nat" where
  "digit_val c = of_char c - 48"

fun parse_digits :: "bool \<Rightarrow> nat \<Rightarrow> string \<Rightarrow> nat option" where
  "parse_digits after_digit acc [] = (if after_digit then Some acc else None)"
| "parse_digits after_digit acc (c # cs) =
     (if is_digit c then parse_digits True (10 * acc + digit_val c) cs
      else if c = CHR ''_'' \<and> after_digit \<and> cs \<noteq> [] \<and> is_digit (hd cs)
      then parse_digits False acc cs
      else None)"

definition py_int :: "string \<Rightarrow> int option" where
  "py_int s =
     (case strip s of
        [] \<Rightarrow> None
      | c # cs \<Rightarrow>
          (if c = CHR ''-'' then map_option (\<lambda>n. - int n) (parse_digits False 0 cs)
           else if c = CHR ''+'' then map_option int (parse_digits False 0 cs)
           else map_option int (parse_digits False 0 (c # cs))))"

text \<open>\<open>str(n)\<close> of a natural number: its decimal digits.\<close>

definition digit_char :: "nat \<Rightarrow> char" where
  "digit_char d = ''0123456789'' ! d"

fun str_nat :: "nat \<Rightarrow> string" where
  "str_nat n = (if n < 10 then [digit_char n] else str_nat (n div 10) @ [digit_char (n mod 10)])"

declare str_nat.simps [simp del]

text \<open>The number that a text of decimal digits denotes, from an accumulator.\<close>

definition digits_value :: "nat \<Rightarrow> string \<Rightarrow> nat" where
  "digits_value acc ds = foldl (\<lambda>a c. 10 * a + digit_val c) acc ds"

text \<open>Line 237: \<open>sorted(adata.obs['louvain'].unique(), key=int)\<close>, a stable sort.\<close>

definition groups_of :: "string list \<Rightarrow> py_error + string list" where
  "groups_of labels =
     (let u = unique labels
      in if list_all (\<lambda>s. py_int s \<noteq> None) u then Inr (sort_key (\<lambda>s. the (py_int s)) u)
         else Inl ValueError)"

section \<open>The table of differentially expressed genes (lines 289--292)\<close>

datatype column = StrCol "string list" | NumCol "npfloat list"

fun column_length :: "column \<Rightarrow> nat" where
  "column_length (StrCol v) = length v"
| "column_length (NumCol v) = length v"

text \<open>\<open>result[key][group]\<close>.\<close>

definition result_field :: "rank_genes_groups \<Rightarrow> string \<Rightarrow> string \<Rightarrow> py_error + column" where
  "result_field R key g =
     (if key = ''names'' then map_sum id StrCol (field (names R) g)
      else if key = ''scores'' then map_sum id NumCol (field (scores R) g)
      else if key = ''logfoldchanges'' then map_sum id NumCol (field (logfoldchanges R) g)
      else if key = ''pvals'' then map_sum id NumCol (field (pvals R) g)
      else if key = ''pvals_adj'' then map_sum id NumCol (field (pvals_adj R) g)
      else Inl KeyError)"

text \<open>\<open>d[k] = v\<close> on a dictionary that keeps the order of insertion.\<close>

fun dict_set :: "(string \<times> 'v) list \<Rightarrow> string \<Rightarrow> 'v \<Rightarrow> (string \<times> 'v) list" where
  "dict_set [] k v = [(k, v)]"
| "dict_set ((k', v') # d) k v = (if k' = k then (k, v) # d else (k', v') # dict_set d k v)"

definition deg_keys :: "string list" where
  "deg_keys = [''names'', ''logfoldchanges'', ''scores'', ''pvals'']"

text \<open>
  Line 291, the dictionary comprehension
  \<open>{group + '_' + key: result[key][group] for group in groups for key in [...]}\<close>.
\<close>

definition group_key_pairs :: "string list \<Rightarrow> (string \<times> string) list" where
  "group_key_pairs groups = concat (map (\<lambda>g. map (\<lambda>key. (g, key)) deg_keys) groups)"

fun deg_dict ::
  "rank_genes_groups \<Rightarrow> (string \<times> string) list \<Rightarrow> (string \<times> column) list
     \<Rightarrow> py_error + (string \<times> column) list" where
  "deg_dict R [] d = Inr d"
| "deg_dict R ((g, key) # rest) d =
     (case result_field R key g of
        Inl err \<Rightarrow> Inl err
      | Inr col \<Rightarrow> deg_dict R rest (dict_set d (g @ ''_'' @ key) col))"

record dataframe =
  df_columns :: "string list"
  df_data :: "column list"
  df_rows :: nat

text \<open>\<open>pd.DataFrame(dict)\<close>: the arrays must have one length, the number of rows.\<close>

definition DataFrame :: "(string \<times> column) list \<Rightarrow> py_error + dataframe" where
  "DataFrame d =
     (case d of
        [] \<Rightarrow> Inr \<lparr> df_columns = [], df_data = [], df_rows = 0 \<rparr>
      | (k, c) # rest \<Rightarrow>
          (if list_all (\<lambda>kc. column_length (snd kc) = column_length c) rest
           then Inr \<lparr> df_columns = map fst d, df_data = map snd d, df_rows = column_length c \<rparr>
           else Inl ValueError))"

definition cluster_DEGs :: "rank_genes_groups \<Rightarrow> string list \<Rightarrow> py_error + dataframe" where
  "cluster_DEGs R groups =
     (case deg_dict R (group_key_pairs groups) [] of
        Inl err \<Rightarrow> Inl err
      | Inr d \<Rightarrow> DataFrame d)"

text \<open>The column name \<open>group + '_' + key\<close> of a pair.\<close>

definition col_name :: "string \<times> string \<Rightarrow> string" where
  "col_name p = fst p @ ''_'' @ snd p"

section \<open>Quality filtering (lines 129--135)\<close>

text \<open>
  The annotated matrix after \<open>var_names_make_unique\<close>: each cell holds its row of the
  matrix and its per-cell observations, each gene its per-gene variables; the column
  \<open>j\<close> of the matrix is the entry \<open>j\<close> of every row. The entries are exact numbers. The
  scanpy functions are modelled by what they compute: \<open>filter_cells(min_genes)\<close> counts
  the positive entries of a row, stores the count as \<open>n_genes\<close> and keeps the rows that
  reach the minimum; \<open>filter_genes(min_cells)\<close> does the same for the columns, with
  \<open>n_cells\<close>; \<open>calculate_qc_metrics\<close> stores the totals and
  \<open>pct_counts_mt = total_counts_mt / total_counts * 100\<close>.
\<close>

record cell =
  cell_name :: string
  counts :: "rat list"
  n_genes :: nat
  total_counts :: rat
  total_counts_mt :: rat
  pct_counts_mt :: npfloat

record gene =
  gene_name :: string
  n_cells :: nat
  mt :: bool

record adata =
  cells :: "cell list"
  genes :: "gene list"

fun flt :: "npfloat \<Rightarrow> npfloat \<Rightarrow> bool" where
  "flt (Finite a) (Finite b) = (a < b)"
| "flt (Finite a) PosInf = True"
| "flt (Finite a) NegInf = False"
| "flt PosInf y = False"
| "flt NegInf (Finite b) = True"
| "flt NegInf PosInf = True"
| "flt NegInf NegInf = False"
| "flt NaN y = False"
| "flt x NaN = False"

text \<open>Division of doubles by their exact values: \<open>0/0\<close> is NaN, \<open>x/0\<close> an infinity.\<close>

definition fdiv :: "rat \<Rightarrow> rat \<Rightarrow> npfloat" where
  "fdiv a b =
     (if b = 0 then (if a = 0 then NaN else if a > 0 then PosInf else NegInf)
      else Finite (a / b))"

fun fmul :: "npfloat \<Rightarrow> rat \<Rightarrow> npfloat" where
  "fmul (Finite a) k = Finite (a * k)"
| "fmul x k = (if k = 0 then NaN else if k > 0 then x else (case x of PosInf \<Rightarrow> NegInf | NegInf \<Rightarrow> PosInf | y \<Rightarrow> y))"

definition detected :: "rat list \<Rightarrow> nat" where
  "detected xs = length (filter (\<lambda>v. v > 0) xs)"

text \<open>Boolean-mask indexing.\<close>

definition select :: "bool list \<Rightarrow> 'a list \<Rightarrow> 'a list" where
  "select keep xs = map fst (filter snd (zip xs keep))"

text \<open>The indices that a mask keeps.\<close>

definition kept :: "bool list \<Rightarrow> nat list" where
  "kept keep = filter ((!) keep) [0..<length keep]"

definition filter_cells :: "nat \<Rightarrow> adata \<Rightarrow> adata" where
  "filter_cells min_genes a =
     a \<lparr> cells := filter (\<lambda>c. n_genes c \<ge> min_genes)
                     (map (\<lambda>c. c \<lparr> n_genes := detected (counts c) \<rparr>) (cells a)) \<rparr>"

text \<open>\<open>np.sum(X > 0, axis=0)\<close>: the rows of indicators added up, column by column.\<close>

definition column_sums :: "nat \<Rightarrow> nat list list \<Rightarrow> nat list" where
  "column_sums n rows = foldl (map2 (+)) (replicate n 0) rows"

definition number_per_gene :: "adata \<Rightarrow> nat list" where
  "number_per_gene a =
     column_sums (length (genes a))
       (map (\<lambda>c. map (\<lambda>v. if v > 0 then 1 else 0) (counts c)) (cells a))"

definition filter_genes :: "nat \<Rightarrow> adata \<Rightarrow> adata" where
  "filter_genes min_cells a =
     (let gene_subset = map (\<lambda>n. n \<ge> min_cells) (number_per_gene a)
      in \<lparr> cells = map (\<lambda>c. c \<lparr> counts := select gene_subset (counts c) \<rparr>) (cells a),
           genes = select gene_subset
                     (map2 (\<lambda>g n. g \<lparr> n_cells := n \<rparr>) (genes a) (number_per_gene a)) \<rparr>)"

text \<open>The number of cells of a matrix with a positive entry in column \<open>j\<close>.\<close>

definition cells_detecting :: "adata \<Rightarrow> nat \<Rightarrow> nat" where
  "cells_detecting a j = length (filter (\<lambda>c. counts c ! j > 0) (cells a))"

text \<open>Line 132: \<open>adata.var_names.str.startswith('MT-')\<close>.\<close>

definition mark_mt :: "adata \<Rightarrow> adata" where
  "mark_mt a = a \<lparr> genes := map (\<lambda>g. g \<lparr> mt := (take 3 (gene_name g) = ''MT-'') \<rparr>) (genes a) \<rparr>"

definition calculate_qc_metrics :: "adata \<Rightarrow> adata" where
  "calculate_qc_metrics a =
     a \<lparr> cells := map (\<lambda>c.
            let total = sum_list (counts c);
                total_mt = sum_list (select (map mt (genes a)) (counts c))
            in c \<lparr> total_counts := total, total_counts_mt := total_mt,
                   pct_counts_mt := fmul (fdiv total_mt total) 100 \<rparr>) (cells a) \<rparr>"

text \<open>Line 135: \<open>adata[adata.obs.pct_counts_mt < 30, :]\<close>.\<close>

definition filter_pct_counts_mt :: "adata \<Rightarrow> adata" where
  "filter_pct_counts_mt a = a \<lparr> cells := filter (\<lambda>c. flt (pct_counts_mt c) (Finite 30)) (cells a) \<rparr>"

text \<open>Lines 129--135 in order.\<close>

definition before_mt_filter :: "adata \<Rightarrow> adata" where
  "before_mt_filter a = calculate_qc_metrics (mark_mt (filter_genes 3 (filter_cells 200 a)))"

definition quality_filter :: "adata \<Rightarrow> adata" where
  "quality_filter a = filter_pct_counts_mt (before_mt_filter a)"

text \<open>
  An input of three cells and 201 genes: every cell has one read of each of 200 genes;
  the last gene is mitochondrial, with one read in the first two cells and 100 in the third.
\<close>

definition qc_cell :: "string \<Rightarrow> rat \<Rightarrow> cell" where
  "qc_cell nm m = \<lparr> cell_name = nm, counts = replicate 200 1 @ [m], n_genes = 0,
                    total_counts = 0, total_counts_mt = 0, pct_counts_mt = NaN \<rparr>"

definition qc_input :: adata where
  "qc_input = \<lparr> cells = [qc_cell ''c1'' 1, qc_cell ''c2'' 1, qc_cell ''c3'' 100],
                genes = map (\<lambda>i. \<lparr> gene_name = ''G'' @ str_nat i, n_cells = 0, mt = False \<rparr>) [0..<200]
                        @ [\<lparr> gene_name = ''MT-CO1'', n_cells = 0, mt = False \<rparr>] \<rparr>"

section \<open>Double-precision arithmetic\<close>

text \<open>
  A finite double is its exact value, a rational number. An arithmetic operation of the
  machine is the exact operation followed by \<open>fl\<close>, the rounding to the nearest double
  with ties to the even significand (53 bits, exponents down to the subnormal quantum
  \<open>2^-1074\<close>). Overflow is not modelled: every value below stays under \<open>2^1024\<close>.
\<close>

text \<open>The number of binary digits of a positive integer.\<close>

function bit_length :: "int \<Rightarrow> nat" where
  "bit_length n = (if n \<le> 0 then 0 else Suc (bit_length (n div 2)))"
  by pat_completeness auto
termination
  by (relation "measure nat") auto

declare bit_length.simps [simp del]

definition pow2 :: "int \<Rightarrow> rat" where
  "pow2 e = (if e \<ge> 0 then 2 ^ nat e else 1 / 2 ^ nat (- e))"

text \<open>
  For \<open>x > 0\<close>, the exponent \<open>e\<close> with \<open>2^e \<le> x < 2^(e+1)\<close>: from the number of
  digits of the integer part when \<open>x \<ge> 1\<close>, and from the reciprocal otherwise.
\<close>

definition binade :: "rat \<Rightarrow> int" where
  "binade x =
     (if x \<ge> 1 then int (bit_length \<lfloor>x\<rfloor>) - 1
      else - int (bit_length (\<lceil>1 / x\<rceil> - 1)))"

text \<open>The nearest integer, a tie going to the even one.\<close>

definition round_half_even :: "rat \<Rightarrow> int" where
  "round_half_even x =
     (if x - of_int \<lfloor>x\<rfloor> < 1 / 2 then \<lfloor>x\<rfloor>
      else if x - of_int \<lfloor>x\<rfloor> > 1 / 2 then \<lfloor>x\<rfloor> + 1
      else if even \<lfloor>x\<rfloor> then \<lfloor>x\<rfloor>
      else \<lfloor>x\<rfloor> + 1)"

text \<open>The spacing of the doubles around a positive number.\<close>

definition quantum :: "rat \<Rightarrow> rat" where
  "quantum a = pow2 (max (binade a - 52) (- 1074))"

definition fl :: "rat \<Rightarrow> rat" where
  "fl x =
     (if x = 0 then 0
      else sgn x * of_int (round_half_even (\<bar>x\<bar> / quantum \<bar>x\<bar>)) * quantum \<bar>x\<bar>)"

text \<open>
  \<open>np.linspace(start, stop, num)\<close> with the end point, as numpy computes it:
  \<open>step = (stop - start) / (num - 1)\<close>, then \<open>arange(num) * step + start\<close>, and the last
  entry set to \<open>stop\<close>.
\<close>

definition linspace_step :: "rat \<Rightarrow> rat \<Rightarrow> nat \<Rightarrow> rat" where
  "linspace_step start stop num = fl (fl (stop - start) / of_nat (num - 1))"

definition linspace :: "rat \<Rightarrow> rat \<Rightarrow> nat \<Rightarrow> rat list" where
  "linspace start stop num =
     (if num > 1
      then (map (\<lambda>i. fl (fl (of_nat i * linspace_step start stop num) + start)) [0..<num])
             [num - 1 := stop]
      else map (\<lambda>i. fl (fl (of_nat i * linspace_step start stop num) + start)) [0..<num])"

text \<open>
  \<open>np.round(x, decimals)\<close> for \<open>decimals \<ge> 0\<close>: multiply by the power of ten, round to the
  nearest integer with ties to even (\<open>rint\<close>), divide by the power of ten.
\<close>

definition np_round :: "rat \<Rightarrow> nat \<Rightarrow> rat" where
  "np_round x decimals =
     fl (of_int (round_half_even (fl (x * 10 ^ decimals))) / 10 ^ decimals)"

text \<open>Line 198: \<open>np.linspace(0.4, 1.4, 6)\<close>, the literals read as doubles.\<close>

definition resolutions :: "rat list" where
  "resolutions = linspace (fl (4 / 10)) (fl (14 / 10)) 6"

section \<open>Automatic resolution search (lines 170--226)\<close>

text \<open>
  The library calls of the search are parameters: the global random generator, set by
  \<open>np.random.seed\<close> and advanced by every \<open>np.random.choice\<close>; the community detection
  \<open>sc.tl.louvain\<close> on the cells listed, which numbers the communities and stores each
  number as text; the silhouette score; and \<open>str\<close> of a double.
\<close>

record 'g externals =
  seeded :: "nat \<Rightarrow> 'g"
  choice :: "'g \<Rightarrow> nat \<Rightarrow> nat \<Rightarrow> nat list \<times> 'g"
  louvain :: "nat list \<Rightarrow> rat \<Rightarrow> nat list"
  silhouette_score :: "rat list list \<Rightarrow> string list \<Rightarrow> py_error + rat"
  str_float :: "rat \<Rightarrow> string"

type_synonym obs = "string \<rightharpoonup> string list"

definition set_entry :: "'a list list \<Rightarrow> nat \<Rightarrow> nat \<Rightarrow> 'a \<Rightarrow> 'a list list" where
  "set_entry M x y v = M[x := (M ! x)[y := v]]"

text \<open>Lines 187--191, the body of the two loops.\<close>

definition pair_update ::
  "nat list \<Rightarrow> string list \<Rightarrow> nat \<Rightarrow> nat \<Rightarrow> bool list list \<times> bool list list
     \<Rightarrow> bool list list \<times> bool list list" where
  "pair_update subsample cluster i j acc =
     (let x = subsample ! i; y = subsample ! j
      in (set_entry (fst acc) x y True,
          if cluster ! i = cluster ! j then set_entry (snd acc) x y True else snd acc))"

text \<open>
  Lines 177--192. An index of the subsample beyond the cells, or a subsample or a label
  list shorter than \<open>subsample_n\<close>, raises.
\<close>

definition subsample_clustering ::
  "(nat list \<Rightarrow> rat \<Rightarrow> nat list) \<Rightarrow> nat \<Rightarrow> nat \<Rightarrow> rat \<Rightarrow> nat list
     \<Rightarrow> py_error + bool list list \<times> bool list list" where
  "subsample_clustering lv sample_n subsample_n res subsample =
     (let cluster = map str_nat (lv subsample res)
      in if list_all (\<lambda>x. x < sample_n) subsample
            \<and> subsample_n \<le> length subsample \<and> subsample_n \<le> length cluster
         then Inr (fold (\<lambda>i. fold (pair_update subsample cluster i) [0..<subsample_n])
                     [0..<subsample_n]
                     (replicate sample_n (replicate sample_n False),
                      replicate sample_n (replicate sample_n False)))
         else Inl IndexError)"

text \<open>
  Lines 205--209: a pool of \<open>cpus\<close> workers maps the function over the list and returns the
  results in the order of the list; the first exception of a worker is raised again.
\<close>

fun collect_results :: "(py_error + 'b) list \<Rightarrow> py_error + 'b list" where
  "collect_results [] = Inr []"
| "collect_results (Inl err # rs) = Inl err"
| "collect_results (Inr v # rs) =
     (case collect_results rs of Inl err \<Rightarrow> Inl err | Inr vs \<Rightarrow> Inr (v # vs))"

definition pool_map :: "int \<Rightarrow> ('a \<Rightarrow> py_error + 'b) \<Rightarrow> 'a list \<Rightarrow> py_error + 'b list" where
  "pool_map processes f xs = (if processes < 1 then Inl ValueError else collect_results (map f xs))"

text \<open>Lines 211--212: \<open>sum\<close> of the boolean matrices, entry by entry, from zero.\<close>

definition mat_add :: "nat list list \<Rightarrow> nat list list \<Rightarrow> nat list list" where
  "mat_add A B = map2 (map2 (+)) A B"

definition sum_indicators :: "nat \<Rightarrow> bool list list list \<Rightarrow> nat list list" where
  "sum_indicators n Ms =
     foldl mat_add (replicate n (replicate n 0)) (map (map (map of_bool)) Ms)"

definition accumulate ::
  "(nat list \<Rightarrow> rat \<Rightarrow> nat list) \<Rightarrow> int \<Rightarrow> nat \<Rightarrow> nat \<Rightarrow> rat \<Rightarrow> nat list list
     \<Rightarrow> py_error + nat list list \<times> nat list list" where
  "accumulate lv processes sample_n subsample_n r subsamples =
     (case pool_map processes (subsample_clustering lv sample_n subsample_n r) subsamples of
        Inl err \<Rightarrow> Inl err
      | Inr resultList \<Rightarrow>
          Inr (sum_indicators sample_n (map fst resultList),
               sum_indicators sample_n (map snd resultList)))"

text \<open>
  Lines 214--216: the zero entries of \<open>subsampling_n\<close> become \<open>1e6\<close>, the distance is
  \<open>1.0 - coclustering_n / subsampling_n\<close> in double arithmetic, and the diagonal is zero.
\<close>

definition replace_zeros :: "nat list list \<Rightarrow> nat list list" where
  "replace_zeros S = map (map (\<lambda>v. if v = 0 then 1000000 else v)) S"

definition fill_diagonal :: "rat list list \<Rightarrow> rat \<Rightarrow> rat list list" where
  "fill_diagonal D v = map2 (\<lambda>i row. row[i := v]) [0..<length D] D"

definition derive_distance :: "nat list list \<times> nat list list \<Rightarrow> rat list list" where
  "derive_distance SC =
     fill_diagonal
       (map2 (map2 (\<lambda>c s. fl (1 - fl (of_nat c / of_nat s)))) (snd SC) (replace_zeros (fst SC)))
       0"

definition rep_n :: nat where
  "rep_n = 5"

text \<open>Line 197: \<open>int(sample_n * subset)\<close> with \<open>subset = 0.8\<close>.\<close>

definition subsample_size :: "nat \<Rightarrow> nat" where
  "subsample_size sample_n = nat \<lfloor>fl (of_nat sample_n * fl (8 / 10))\<rfloor>"

text \<open>Line 204: \<open>rep_n\<close> draws, one after the other, from the one generator.\<close>

fun draw_subsamples ::
  "('g \<Rightarrow> nat \<Rightarrow> nat \<Rightarrow> nat list \<times> 'g) \<Rightarrow> nat \<Rightarrow> nat \<Rightarrow> nat \<Rightarrow> 'g \<Rightarrow> nat list list \<times> 'g" where
  "draw_subsamples ch sample_n subsample_n 0 g = ([], g)"
| "draw_subsamples ch sample_n subsample_n (Suc t) g =
     (let drawn = ch g sample_n subsample_n;
          more = draw_subsamples ch sample_n subsample_n t (snd drawn)
      in (fst drawn # fst more, snd more))"

text \<open>Lines 202--219, one candidate resolution.\<close>

definition resolution_key :: "'g externals \<Rightarrow> rat \<Rightarrow> string" where
  "resolution_key E r = ''louvain_r'' @ str_float E r"

definition full_labels :: "'g externals \<Rightarrow> nat \<Rightarrow> rat \<Rightarrow> string list" where
  "full_labels E sample_n r = map str_nat (louvain E [0..<sample_n] r)"

definition candidate ::
  "'g externals \<Rightarrow> int \<Rightarrow> nat \<Rightarrow> rat \<Rightarrow> 'g \<times> obs \<Rightarrow> py_error + 'g \<times> obs \<times> rat" where
  "candidate E processes sample_n r0 st =
     (let r = np_round r0 1;
          subsample_n = subsample_size sample_n;
          drawn = draw_subsamples (choice E) sample_n subsample_n rep_n (fst st)
      in (case accumulate (louvain E) processes sample_n subsample_n r (fst drawn) of
            Inl err \<Rightarrow> Inl err
          | Inr SC \<Rightarrow>
              (let obs1 = (snd st)(resolution_key E r \<mapsto> full_labels E sample_n r)
               in (case silhouette_score E (derive_distance SC) (full_labels E sample_n r) of
                     Inl err \<Rightarrow> Inl err
                   | Inr score \<Rightarrow> Inr (snd drawn, obs1, score)))))"

text \<open>Lines 201--221: the loop over \<open>enumerate(resolutions)\<close>.\<close>

fun search_loop ::
  "'g externals \<Rightarrow> int \<Rightarrow> nat \<Rightarrow> (nat \<times> rat) list \<Rightarrow> 'g \<times> obs \<times> rat list
     \<Rightarrow> py_error + 'g \<times> obs \<times> rat list" where
  "search_loop E processes sample_n [] st = Inr st"
| "search_loop E processes sample_n ((ri, r0) # rest) (g, ob, silhouette_avg) =
     (case candidate E processes sample_n r0 (g, ob) of
        Inl err \<Rightarrow> Inl err
      | Inr (g1, ob1, score) \<Rightarrow>
          search_loop E processes sample_n rest (g1, ob1, silhouette_avg[ri := score]))"

text \<open>\<open>np.argmax\<close>: the first index of a largest entry.\<close>

fun argmax_from :: "rat list \<Rightarrow> nat \<Rightarrow> nat \<Rightarrow> rat \<Rightarrow> nat" where
  "argmax_from [] i best_i best = best_i"
| "argmax_from (x # xs) i best_i best =
     (if x > best then argmax_from xs (Suc i) i x else argmax_from xs (Suc i) best_i best)"

definition argmax :: "rat list \<Rightarrow> nat" where
  "argmax xs = (case xs of [] \<Rightarrow> 0 | x # rest \<Rightarrow> argmax_from rest 1 0 x)"

text \<open>Lines 223--225: the best resolution, read from the grid as it is, and its labels.\<close>

definition select_best :: "'g externals \<Rightarrow> obs \<Rightarrow> rat list \<Rightarrow> py_error + obs \<times> rat" where
  "select_best E ob silhouette_avg =
     (if argmax silhouette_avg < length resolutions
      then (let best_resution = resolutions ! argmax silhouette_avg
            in (case ob (resolution_key E best_resution) of
                  None \<Rightarrow> Inl KeyError
                | Some labels \<Rightarrow> Inr (ob(''louvain'' \<mapsto> labels), best_resution)))
      else Inl IndexError)"

definition scored ::
  "'g externals \<Rightarrow> int \<Rightarrow> nat \<Rightarrow> obs \<Rightarrow> py_error + 'g \<times> obs \<times> rat list" where
  "scored E processes sample_n ob =
     search_loop E processes sample_n (zip [0..<length resolutions] resolutions)
       (seeded E 1, ob, replicate (length resolutions) 0)"

definition auto_resolution ::
  "'g externals \<Rightarrow> int \<Rightarrow> nat \<Rightarrow> obs \<Rightarrow> py_error + obs \<times> rat" where
  "auto_resolution E processes sample_n ob =
     (case scored E processes sample_n ob of
        Inl err \<Rightarrow> Inl err
      | Inr (g, ob1, silhouette_avg) \<Rightarrow> select_best E ob1 silhouette_avg)"

text \<open>
  A matrix of \<open>n\<close> rows of \<open>n\<close> entries, and what the two loops of
  \<open>subsample_clustering\<close> keep true: a pair is marked as clustered together only when it is
  marked as drawn together, and then both cells are among the first \<open>subsample_n\<close> cells of
  the subsample.
\<close>

definition square :: "nat \<Rightarrow> 'a list list \<Rightarrow> bool" where
  "square n M = (length M = n \<and> list_all (\<lambda>row. length row = n) M)"


text \<open>A clustering by parity and five subsamples of four cells out of five.\<close>

definition ex_louvain :: "nat list \<Rightarrow> rat \<Rightarrow> nat list" where
  "ex_louvain cells_listed r = map (\<lambda>x. x mod 2) cells_listed"






section \<open>Cluster labels and the annotation matrix (lines 115--118, 230, 237--246)\<close>

text \<open>
  What the annotation step reads: the \<open>louvain\<close> column of the observations and the raw
  matrix, one row per cell and one entry per raw gene.
\<close>

record annotated =
  obs_louvain :: "string list"
  raw_X :: "rat list list"
  raw_n_vars :: nat

text \<open>Lines 116--118: the cells of an h5ad input whose label is among \<open>--clusters\<close>.\<close>

definition h5ad_subset :: "string \<Rightarrow> annotated \<Rightarrow> annotated" where
  "h5ad_subset cs a =
     (let keep = map (\<lambda>l. l \<in> set (cluster_subset cs)) (obs_louvain a)
      in a \<lparr> obs_louvain := select keep (obs_louvain a), raw_X := select keep (raw_X a) \<rparr>)"

text \<open>
  Line 230: \<open>sc.tl.louvain(adata, resolution)\<close> stores the community numbers of all cells,
  as text, in the \<open>louvain\<close> column, whatever the column held before.
\<close>

definition fixed_clustering :: "(nat list \<Rightarrow> rat \<Rightarrow> nat list) \<Rightarrow> rat \<Rightarrow> annotated \<Rightarrow> annotated" where
  "fixed_clustering lv res a =
     a \<lparr> obs_louvain := map str_nat (lv [0..<length (obs_louvain a)] res) \<rparr>"

text \<open>An index into an axis of \<open>k\<close> entries: a negative index counts from the end.\<close>

definition py_index :: "nat \<Rightarrow> int \<Rightarrow> py_error + nat" where
  "py_index k j =
     (if 0 \<le> j \<and> j < int k then Inr (nat j)
      else if - int k \<le> j \<and> j < 0 then Inr (nat (j + int k))
      else Inl IndexError)"

text \<open>\<open>rows.mean(axis=0)\<close> over \<open>n\<close> columns, in exact arithmetic.\<close>

definition mean_axis0 :: "rat list list \<Rightarrow> nat \<Rightarrow> npfloat list" where
  "mean_axis0 rows n =
     map (\<lambda>i. fdiv (sum_list (map (\<lambda>r. r ! i) rows)) (of_nat (length rows))) [0..<n]"

text \<open>\<open>mat[:, j] = v\<close>.\<close>

definition set_column :: "npfloat list list \<Rightarrow> nat \<Rightarrow> npfloat list \<Rightarrow> npfloat list list" where
  "set_column mat j v = map2 (\<lambda>r x. r[j := x]) mat v"

text \<open>The mean raw expression of the cells of one cluster.\<close>

definition cluster_mean :: "annotated \<Rightarrow> string \<Rightarrow> npfloat list" where
  "cluster_mean a g =
     mean_axis0 (select (map (\<lambda>l. l = g) (obs_louvain a)) (raw_X a)) (raw_n_vars a)"

text \<open>Lines 243--244: the loop over the groups, on a matrix of \<open>k\<close> columns.\<close>

fun fill_means :: "annotated \<Rightarrow> nat \<Rightarrow> string list \<Rightarrow> npfloat list list \<Rightarrow> py_error + npfloat list list" where
  "fill_means a k [] mat = Inr mat"
| "fill_means a k (g # gs) mat =
     (case py_int g of
        None \<Rightarrow> Inl ValueError
      | Some j \<Rightarrow>
          (case py_index k j of
             Inl err \<Rightarrow> Inl err
           | Inr c \<Rightarrow> fill_means a k gs (set_column mat c (cluster_mean a g))))"

text \<open>Lines 237--245: the groups, and the matrix of their means.\<close>

definition cluster_mean_exp :: "annotated \<Rightarrow> py_error + string list \<times> npfloat list list" where
  "cluster_mean_exp a =
     (case groups_of (obs_louvain a) of
        Inl err \<Rightarrow> Inl err
      | Inr groups \<Rightarrow>
          (case fill_means a (length groups) groups
                  (replicate (raw_n_vars a) (replicate (length groups) (Finite 0))) of
             Inl err \<Rightarrow> Inl err
           | Inr mat \<Rightarrow> Inr (groups, mat)))"

text \<open>An h5ad run with a fixed resolution and the annotation, as far as the matrix.\<close>

definition h5ad_annotation ::
  "(nat list \<Rightarrow> rat \<Rightarrow> nat list) \<Rightarrow> rat \<Rightarrow> string \<Rightarrow> annotated
     \<Rightarrow> py_error + string list \<times> npfloat list list" where
  "h5ad_annotation lv res cs a = cluster_mean_exp (fixed_clustering lv res (h5ad_subset cs a))"

text \<open>A stored object of four cells in the clusters 3, 5 and 7, with two raw genes.\<close>

definition ex_h5ad :: annotated where
  "ex_h5ad = \<lparr> obs_louvain = [''3'', ''5'', ''3'', ''7''],
               raw_X = [[1, 0], [0, 4], [3, 2], [9, 9]], raw_n_vars = 2 \<rparr>"

section \<open>Properties of the command line and the stage order\<close>

lemma of_char_shift: 
  assumes "of_char c \<le> (90::nat)"
  shows "char_of (of_char c + (32::nat)) = d \<longleftrightarrow> of_char d = of_char c + (32::nat)"
proof -
  have "of_char c + (32::nat) < 2 ^ 8" using assms by simp
  then have "take_bit 8 (of_char c + (32::nat)) = of_char c + (32::nat)"
    by (simp only: take_bit_nat_eq_self)
  then show ?thesis by (auto simp: char_of_eq_iff)
qed

lemma lower_char_lower_iff:
  assumes "\<not> ((65::nat) \<le> of_char d \<and> of_char d \<le> (90::nat))"
  shows "lower_char c = d \<longleftrightarrow> same_letter c d"
proof (cases "(65::nat) \<le> of_char c \<and> of_char c \<le> (90::nat)")
  case True
  then have "c \<noteq> d" using assms by auto
  with True assms show ?thesis
    by (auto simp: lower_char_def same_letter_def of_char_shift)
next
  case False
  with assms show ?thesis by (auto simp: lower_char_def same_letter_def)
qed

lemma lower_eq_iff:
  "list_all (\<lambda>d. \<not> ((65::nat) \<le> of_char d \<and> of_char d \<le> (90::nat))) t \<Longrightarrow>
   lower s = t \<longleftrightarrow> eq_ignore_case s t"
proof (induction s arbitrary: t)
  case Nil
  then show ?case by (auto simp: lower_def eq_ignore_case_def)
next
  case (Cons c s)
  show ?case
  proof (cases t)
    case Nil
    then show ?thesis by (simp add: lower_def eq_ignore_case_def)
  next
    case (Cons d t')
    with Cons.prems have d: "\<not> ((65::nat) \<le> of_char d \<and> of_char d \<le> (90::nat))"
      and t': "list_all (\<lambda>d. \<not> ((65::nat) \<le> of_char d \<and> of_char d \<le> (90::nat))) t'"
      by simp_all
    from Cons.IH [OF t'] lower_char_lower_iff [OF d, of c] Cons show ?thesis
      by (simp add: lower_def eq_ignore_case_def)
  qed
qed

lemma GEP_type_iff: "GEP_type s \<longleftrightarrow> eq_ignore_case s ''true''"
  unfolding GEP_type_def by (rule lower_eq_iff) simp

lemma path_join_inj:
  "f \<noteq> [] \<Longrightarrow> hd f \<noteq> CHR ''/'' \<Longrightarrow> g \<noteq> [] \<Longrightarrow> hd g \<noteq> CHR ''/'' \<Longrightarrow> path_join d f = path_join d g \<longleftrightarrow> f = g"
  by (auto simp: path_join_def)

lemma WriteFile_preprocessing: "preprocessing e a = Inr pre \<Longrightarrow> WriteFile p \<notin> set pre"
  by (auto simp: preprocessing_def Let_def split: if_splits option.splits)

lemma GEP_txt_analysis:
  "WriteFile (path_join (output_dir a) ''GEP.txt'') \<in> set (analysis a) \<longleftrightarrow> GEP a"
  by (simp add: analysis_def path_join_inj)

lemma main_Inr: "main e a = Inr tr \<Longrightarrow> \<exists>pre. preprocessing e a = Inr pre \<and> tr = pre @ analysis a"
  by (auto simp: main_def split: option.splits sum.splits)

text \<open>
  Claim C9. The \<open>--GEP\<close> option is enabled exactly when the supplied text equals
  \<open>true\<close> up to the case of its letters; \<open>1\<close> and \<open>yes\<close> disable it; the option is
  enabled when it is not supplied; and a run that reaches its end writes \<open>GEP.txt\<close>
  exactly when the option is enabled.
\<close>

theorem GEP_option_true_only:
  "parse_GEP None
   \<and> (parse_GEP (Some s) \<longleftrightarrow> eq_ignore_case s ''true'')
   \<and> \<not> parse_GEP (Some ''1'') \<and> \<not> parse_GEP (Some ''yes'')
   \<and> (main e a = Inr tr \<longrightarrow>
        (WriteFile (path_join (output_dir a) ''GEP.txt'') \<in> set tr \<longleftrightarrow> parse_GEP (GEP_supplied a)))"
proof -
  have 1: "parse_GEP None" by (simp add: parse_GEP_def)
  have 2: "parse_GEP (Some s) \<longleftrightarrow> eq_ignore_case s ''true''"
    by (simp add: parse_GEP_def GEP_type_iff)
  have 3: "\<not> parse_GEP (Some ''1'')" "\<not> parse_GEP (Some ''yes'')"
    by (simp_all add: parse_GEP_def GEP_type_iff eq_ignore_case_def same_letter_def)
  have 4: "WriteFile (path_join (output_dir a) ''GEP.txt'') \<in> set tr \<longleftrightarrow> parse_GEP (GEP_supplied a)"
    if "main e a = Inr tr"
  proof -
    from main_Inr [OF that] obtain pre where pre: "preprocessing e a = Inr pre" "tr = pre @ analysis a"
      by blast
    show ?thesis using WriteFile_preprocessing [OF pre(1)] GEP_txt_analysis [of a]
      by (simp add: pre(2) GEP_def)
  qed
  from 1 2 3 4 show ?thesis by blast
qed

lemma main_args_10x_yes:
  "main env_ok args_GEP_yes =
     Inr [Read10x ''data'', VarNamesMakeUnique, FilterCells 200, FilterGenes 3,
      CalculateQcMetrics, FilterPctCountsMt 30, 
      NormalizeTotal 10000, Log1p, HighlyVariableGenes, RegressOut, Scale,
      Pca, Neighbors 20, Umap, Louvain (6 / 10), PlotUmap ''_cluster.png'',
      RankGenesGroups,
      WriteFile ''out/scanpyobj.h5ad'', WriteFile ''out/cluster_DEGs.csv'']"
  by (simp add: main_def validate_def first_exit_def check_input_def check_output_def
      check_metadata_def check_batch_def preprocessing_def analysis_def env_ok_def args_10x_def args_GEP_yes_def
      GEP_def parse_GEP_def GEP_type_iff eq_ignore_case_def same_letter_def path_join_def)

theorem GEP_option_true_only_witness:
  "parse_GEP (Some ''TRUE'')
   \<and> main env_ok args_GEP_yes =
     Inr [Read10x ''data'', VarNamesMakeUnique, FilterCells 200, FilterGenes 3,
      CalculateQcMetrics, FilterPctCountsMt 30, 
      NormalizeTotal 10000, Log1p, HighlyVariableGenes, RegressOut, Scale,
      Pca, Neighbors 20, Umap, Louvain (6 / 10), PlotUmap ''_cluster.png'',
      RankGenesGroups,
      WriteFile ''out/scanpyobj.h5ad'', WriteFile ''out/cluster_DEGs.csv'']
   \<and> \<not> parse_GEP (GEP_supplied args_GEP_yes)"
proof -
  have a: "eq_ignore_case ''TRUE'' ''true''"
    by (simp add: eq_ignore_case_def same_letter_def)
  have b: "GEP_supplied args_GEP_yes = Some ''yes''"
    by (simp add: args_GEP_yes_def)
  from GEP_option_true_only [of "''TRUE''" env_ok args_GEP_yes] a b main_args_10x_yes
  show ?thesis by simp
qed

lemma h5ad_never_harmony:
  assumes "format a = ''h5ad''" and "main e a = Inr tr"
  shows "HarmonyIntegrate b basis \<notin> set tr" and "BatchFromMetadata b \<notin> set tr"
proof -
  from main_Inr [OF assms(2)] obtain pre where
    pre: "preprocessing e a = Inr pre" "tr = pre @ analysis a" by blast
  from pre(1) assms(1) obtain cs where "pre = [ReadH5ad (input a), SubsetClusters (cluster_subset cs)]
             @ (if GEP a then [GEPFromRaw] else [])"
    by (auto simp: preprocessing_def split: option.splits)
  then show "HarmonyIntegrate b basis \<notin> set tr" and "BatchFromMetadata b \<notin> set tr"
    by (simp_all add: pre(2) analysis_def)
qed

lemma batch_10x_csv_harmony:
  assumes "format a \<noteq> ''h5ad''" and "batch a = Some b" and "main e a = Inr tr"
  shows "BatchFromMetadata b \<in> set tr \<and> HarmonyIntegrate b ''X_pca'' \<in> set tr"
proof -
  from main_Inr [OF assms(3)] obtain pre where
    pre: "preprocessing e a = Inr pre" "tr = pre @ analysis a" by blast
  have "validate e a = None" using assms(3) by (auto simp: main_def split: option.splits)
  then have "check_batch e a = None"
    by (auto simp: validate_def first_exit_def split: list.splits if_splits)
  with assms(1,2) have "metadata a \<noteq> None"
    by (auto simp: check_batch_def split: if_splits)
  with pre(1) assms(1,2) show ?thesis
    by (auto simp: preprocessing_def Let_def pre(2) split: if_splits)
qed


section \<open>Properties of the enrichment stage\<close>

lemma nth_filter_zip:
  "length bs = length xs \<Longrightarrow>
   map ((!) xs) (filter ((!) bs) [0..<length bs]) = map fst (filter snd (zip xs bs))"
proof (induction bs xs rule: list_induct2)
  case Nil
  then show ?case by simp
next
  case (Cons b bs x xs)
  have "filter ((!) (b # bs)) [0..<length (b # bs)]
        = (if b then [0] else []) @ map Suc (filter ((!) bs) [0..<length bs])"
    by (simp add: upt_conv_Cons map_Suc_upt [symmetric] filter_map o_def del: upt_Suc)
  then show ?case using Cons.IH by (simp add: o_def)
qed

lemma indlist_eq:
  assumes "length nm = n" "length lfc = n" "length padj = n" "length p = n"
  shows "map2 (\<and>) (map2 (\<and>) (map (\<lambda>v. fge v thr) lfc) (map (\<lambda>v. fle v double_1e_2) padj))
           (map (\<lambda>v. fle v double_1e_2) p)
         = map (passes_thresholds thr) (zip nm (zip lfc (zip padj p)))"
proof -
  have "length nm = length lfc" "length lfc = length padj" "length padj = length p"
    using assms by simp_all
  then show ?thesis
    by (induction nm lfc padj p rule: list_induct4) (simp_all add: passes_thresholds_def)
qed

lemma filter_snd_zip_map:
  "map fst (filter snd (zip (map f zs) (map P zs))) = map f (filter P zs)"
  by (induction zs) simp_all

lemma select_degs_tested:
  assumes "tested R n c"
  shows "select_degs R thr c = Inr (marker_genes R thr c)"
proof -
  from assms obtain nm lfc padj p where
    f: "names R c = Some nm" "logfoldchanges R c = Some lfc" "pvals_adj R c = Some padj"
       "pvals R c = Some p"
    and l: "length nm = n" "length lfc = n" "length padj = n" "length p = n"
    by (auto simp: tested_def split: option.splits)
  define Z where "Z = zip nm (zip lfc (zip padj p))"
  define indlist where "indlist = map (passes_thresholds thr) Z"
  have lz: "length Z = n" and nmZ: "nm = map fst Z" using l by (simp_all add: Z_def)
  have li: "length indlist = length nm" using lz l by (simp add: indlist_def)
  have ind: "map ((!) nm) (filter ((!) indlist) [0..<length indlist]) = map fst (filter (passes_thresholds thr) Z)"
    using nth_filter_zip [OF li] filter_snd_zip_map [of fst Z "passes_thresholds thr"]
    by (simp add: indlist_def nmZ [symmetric])
  have bound: "list_all (\<lambda>x. x < length nm) (filter ((!) indlist) [0..<length indlist])"
    by (simp add: list_all_iff li)
  show ?thesis
    using ind bound l
    by (simp add: select_degs_def f indlist_eq [OF l, of thr] Z_def [symmetric]
        indlist_def [symmetric] marker_genes_def Let_def)
qed

lemma enrich_clusters_Inr:
  "enrich_clusters enr R thr cs = Inr qs \<Longrightarrow>
     map fst qs = filter (\<lambda>c. \<exists>d. select_degs R thr c = Inr d \<and> d \<noteq> []) cs
     \<and> (\<forall>q\<in>set qs. select_degs R thr (fst q) = Inr (fst (snd q)) \<and> fst (snd q) \<noteq> []
            \<and> snd (snd q) = enr (fst (snd q)) (fst q))"
proof (induction cs arbitrary: qs)
  case Nil
  then show ?case by simp
next
  case (Cons c cs)
  then show ?case
    by (auto split: sum.splits if_splits)
qed

lemma enrich_clusters_tested:
  "\<forall>c\<in>set cs. tested R n c \<Longrightarrow>
   enrich_clusters enr R thr cs
     = Inr (map (\<lambda>c. (c, marker_genes R thr c, enr (marker_genes R thr c) c))
            (filter (\<lambda>c. marker_genes R thr c \<noteq> []) cs))"
proof (induction cs)
  case Nil
  then show ?case by simp
next
  case (Cons c cs)
  from Cons.prems have "select_degs R thr c = Inr (marker_genes R thr c)"
    by (simp add: select_degs_tested [of R n])
  with Cons show ?case by simp
qed

lemma concat_significant_rows:
  "r \<in> set (fst (concat_significant cutoff xs)) \<Longrightarrow>
     \<exists>res. (Cluster r, res) \<in> set xs \<and> row r \<in> set res \<and> fle (Adjusted_P_value (row r)) cutoff"
proof (induction xs)
  case Nil
  then show ?case by simp
next
  case (Cons x xs)
  obtain c res where x: "x = (c, res)" by (cases x)
  from Cons show ?case
    by (auto simp: x Let_def split: prod.splits if_splits)
qed

lemma concat_significant_printed:
  "(c, res) \<in> set xs \<Longrightarrow> \<forall>r\<in>set res. \<not> fle (Adjusted_P_value r) cutoff \<Longrightarrow>
     NoPathway cutoff c \<in> set (snd (concat_significant cutoff xs))"
proof (induction xs)
  case Nil
  then show ?case by simp
next
  case (Cons x xs)
  obtain c' res' where x: "x = (c', res')" by (cases x)
  from Cons show ?case
    by (auto simp: x Let_def filter_empty_conv split: prod.splits if_splits)
qed

lemma concat_significant_none:
  assumes "distinct (map fst xs)" and "(c, res) \<in> set xs"
    and "\<forall>r\<in>set res. \<not> fle (Adjusted_P_value r) cutoff"
  shows "\<forall>r\<in>set (fst (concat_significant cutoff xs)). Cluster r \<noteq> c"
proof
  fix r assume r: "r \<in> set (fst (concat_significant cutoff xs))"
  show "Cluster r \<noteq> c"
  proof
    assume "Cluster r = c"
    with concat_significant_rows [OF r] obtain res' where
      res': "(c, res') \<in> set xs" "row r \<in> set res'" "fle (Adjusted_P_value (row r)) cutoff"
      by blast
    from assms(1,2) res'(1) have "res' = res" by (meson eq_key_imp_eq_value)
    with res' assms(3) show False by blast
  qed
qed

lemma distinct_celltypes: "distinct (celltypes labels)"
  by (simp add: celltypes_def unique_def)

lemma set_celltypes: "set (celltypes labels) = set labels"
  by (simp add: celltypes_def unique_def)

lemma ex_celltypes: "celltypes ex_labels = [''0'', ''1'', ''2'']"
  by code_simp

lemma ex_tested: "tested ex_R 3 ''0''" "tested ex_R 3 ''1''" "tested ex_R 3 ''2''"
  by (simp_all add: tested_def ex_R_def)

lemma ex_markers:
  "marker_genes ex_R default_logfc_threshold ''0'' = [''G1'']"
  "marker_genes ex_R default_logfc_threshold ''1'' = []"
  "marker_genes ex_R default_logfc_threshold ''2'' = [''G2'']"
  by (simp_all add: marker_genes_def ex_R_def passes_thresholds_def default_logfc_threshold_def
      double_1e_2_def fge_def)

text \<open>
  Claim C6. When the marker-gene test was run for every cluster, the enrichment stage sends
  one query for each cluster whose marker set is not empty, in the sorted order of the
  clusters; the gene list of the query is exactly the list of the genes with log-fold-change
  at least 2, adjusted p-value at most 0.01 and raw p-value at most 0.01; a cluster with no
  such gene gets no query and has no row in the result.
\<close>

theorem enrichment_queries_are_markers:
  assumes "\<forall>c\<in>set (celltypes labels). tested R n c"
  shows "\<exists>qs df printed.
      enrich_clusters enr R default_logfc_threshold (celltypes labels) = Inr qs
    \<and> gsea_stage enr R labels = Inr (df, printed)
    \<and> map (\<lambda>q. (fst q, fst (snd q))) qs
        = map (\<lambda>c. (c, marker_genes R default_logfc_threshold c))
            (filter (\<lambda>c. marker_genes R default_logfc_threshold c \<noteq> []) (celltypes labels))
    \<and> (\<forall>q\<in>set qs. snd (snd q) = enr (fst (snd q)) (fst q))
    \<and> (\<forall>c\<in>set (celltypes labels). marker_genes R default_logfc_threshold c = [] \<longrightarrow>
          c \<notin> fst ` set qs \<and> (\<forall>r\<in>set df. Cluster r \<noteq> c))"
proof -
  define thr where "thr = default_logfc_threshold"
  define qs where "qs = map (\<lambda>c. (c, marker_genes R thr c, enr (marker_genes R thr c) c))
            (filter (\<lambda>c. marker_genes R thr c \<noteq> []) (celltypes labels))"
  define out where "out = concat_significant double_0_05 (map (\<lambda>(c, degs, res). (c, res)) qs)"
  have q: "enrich_clusters enr R thr (celltypes labels) = Inr qs"
    unfolding qs_def by (rule enrich_clusters_tested [OF assms])
  have g: "gsea_stage enr R labels = Inr (fst out, snd out)"
    by (simp add: gsea_stage_def runGSEAPY_def q [unfolded thr_def] out_def)
  have m: "map (\<lambda>q. (fst q, fst (snd q))) qs
        = map (\<lambda>c. (c, marker_genes R thr c)) (filter (\<lambda>c. marker_genes R thr c \<noteq> []) (celltypes labels))"
    by (simp add: qs_def o_def)
  have e: "\<forall>q\<in>set qs. snd (snd q) = enr (fst (snd q)) (fst q)"
    by (auto simp: qs_def)
  have s: "c \<notin> fst ` set qs \<and> (\<forall>r\<in>set (fst out). Cluster r \<noteq> c)"
    if "marker_genes R thr c = []" for c
  proof
    show nq: "c \<notin> fst ` set qs" using that by (auto simp: qs_def)
    show "\<forall>r\<in>set (fst out). Cluster r \<noteq> c"
    proof
      fix r assume "r \<in> set (fst out)"
      from concat_significant_rows [OF this [unfolded out_def]]
      have "Cluster r \<in> fst ` set qs" by force
      with nq show "Cluster r \<noteq> c" by blast
    qed
  qed
  from q g m e s show ?thesis unfolding thr_def by blast
qed

theorem enrichment_queries_are_markers_witness:
  "celltypes ex_labels = [''0'', ''1'', ''2'']
   \<and> tested ex_R 3 ''0'' \<and> tested ex_R 3 ''1'' \<and> tested ex_R 3 ''2''
   \<and> marker_genes ex_R default_logfc_threshold ''1'' = []
   \<and> (\<exists>qs df printed.
        enrich_clusters ex_enrichr ex_R default_logfc_threshold (celltypes ex_labels) = Inr qs
      \<and> gsea_stage ex_enrichr ex_R ex_labels = Inr (df, printed)
      \<and> map (\<lambda>q. (fst q, fst (snd q))) qs = [(''0'', [''G1'']), (''2'', [''G2''])]
      \<and> ''1'' \<notin> fst ` set qs \<and> ''1'' \<notin> Cluster ` set df)"
proof -
  have t: "\<forall>c\<in>set (celltypes ex_labels). tested ex_R 3 c"
    by (simp add: ex_celltypes ex_tested)
  from enrichment_queries_are_markers [OF t, of ex_enrichr]
  obtain qs df printed where
    h: "enrich_clusters ex_enrichr ex_R default_logfc_threshold (celltypes ex_labels) = Inr qs"
       "gsea_stage ex_enrichr ex_R ex_labels = Inr (df, printed)"
       "map (\<lambda>q. (fst q, fst (snd q))) qs
        = map (\<lambda>c. (c, marker_genes ex_R default_logfc_threshold c))
            (filter (\<lambda>c. marker_genes ex_R default_logfc_threshold c \<noteq> []) (celltypes ex_labels))"
       "\<forall>c\<in>set (celltypes ex_labels). marker_genes ex_R default_logfc_threshold c = [] \<longrightarrow>
          c \<notin> fst ` set qs \<and> (\<forall>r\<in>set df. Cluster r \<noteq> c)"
    by blast
  from h(3) have m: "map (\<lambda>q. (fst q, fst (snd q))) qs = [(''0'', [''G1'']), (''2'', [''G2''])]"
    by (simp add: ex_celltypes ex_markers)
  from h(4) have "''1'' \<notin> fst ` set qs \<and> (\<forall>r\<in>set df. Cluster r \<noteq> ''1'')"
    by (simp add: ex_celltypes ex_markers)
  then have n: "''1'' \<notin> fst ` set qs" "''1'' \<notin> Cluster ` set df" by auto
  have E: "\<exists>qs df printed.
        enrich_clusters ex_enrichr ex_R default_logfc_threshold (celltypes ex_labels) = Inr qs
      \<and> gsea_stage ex_enrichr ex_R ex_labels = Inr (df, printed)
      \<and> map (\<lambda>q. (fst q, fst (snd q))) qs = [(''0'', [''G1'']), (''2'', [''G2''])]
      \<and> ''1'' \<notin> fst ` set qs \<and> ''1'' \<notin> Cluster ` set df"
    by (intro exI conjI) (rule h(1) h(2) m n)+
  show ?thesis
    by (intro conjI) (rule ex_celltypes ex_tested ex_markers(2) E)+
qed

text \<open>
  Claim C7. Every row of the enrichment result has an adjusted p-value at most the cutoff;
  a queried cluster whose table has no row at or below the cutoff contributes no row and a
  console message is printed for it; the stage is called with the cutoff 0.05.
\<close>

theorem enrichment_rows_below_cutoff:
  assumes "runGSEAPY enr R labels cutoff thr = Inr (df, printed)"
  shows "(\<forall>r\<in>set df. fle (Adjusted_P_value (row r)) cutoff)
       \<and> (\<exists>qs. enrich_clusters enr R thr (celltypes labels) = Inr qs
             \<and> (\<forall>q\<in>set qs. (\<forall>r\<in>set (snd (snd q)). \<not> fle (Adjusted_P_value r) cutoff) \<longrightarrow>
                   (\<forall>r\<in>set df. Cluster r \<noteq> fst q) \<and> NoPathway cutoff (fst q) \<in> set printed))
       \<and> gsea_stage enr R labels = runGSEAPY enr R labels double_0_05 default_logfc_threshold"
proof -
  from assms obtain qs where
    q: "enrich_clusters enr R thr (celltypes labels) = Inr qs"
    and out: "concat_significant cutoff (map (\<lambda>(c, degs, res). (c, res)) qs) = (df, printed)"
    by (auto simp: runGSEAPY_def split: sum.splits)
  define xs where "xs = map (\<lambda>(c, degs, res). (c, res)) qs"
  have df: "df = fst (concat_significant cutoff xs)" and pr: "printed = snd (concat_significant cutoff xs)"
    using out by (simp_all add: xs_def)
  have fx: "map fst xs = map fst qs" by (simp add: xs_def o_def split_def)
  from enrich_clusters_Inr [OF q] have "map fst qs = filter (\<lambda>c. \<exists>d. select_degs R thr c = Inr d \<and> d \<noteq> []) (celltypes labels)"
    by blast
  then have dist: "distinct (map fst xs)"
    by (simp add: fx distinct_celltypes)
  have 1: "\<forall>r\<in>set df. fle (Adjusted_P_value (row r)) cutoff"
    using concat_significant_rows [of _ cutoff xs] by (auto simp: df)
  have 2: "(\<forall>r\<in>set df. Cluster r \<noteq> fst q) \<and> NoPathway cutoff (fst q) \<in> set printed"
    if "q \<in> set qs" "\<forall>r\<in>set (snd (snd q)). \<not> fle (Adjusted_P_value r) cutoff" for q
  proof -
    from that(1) have mem: "(fst q, snd (snd q)) \<in> set xs"
      by (force simp: xs_def split_def)
    from concat_significant_none [OF dist mem that(2)] concat_significant_printed [OF mem that(2)]
    show ?thesis by (simp add: df pr)
  qed
  from 1 2 q show ?thesis by (auto simp: gsea_stage_def)
qed

lemma ex_gsea:
  "gsea_stage ex_enrichr ex_R ex_labels
     = Inr ([\<lparr> Cluster = ''0'', row = ex_row ''a'' (1 / 100) \<rparr>], [NoPathway double_0_05 ''2''])"
  by (simp add: gsea_stage_def runGSEAPY_def ex_celltypes select_degs_tested [OF ex_tested(1)]
      select_degs_tested [OF ex_tested(2)] select_degs_tested [OF ex_tested(3)] ex_markers
      ex_enrichr_def ex_row_def double_0_05_def)

theorem enrichment_rows_below_cutoff_witness:
  "runGSEAPY ex_enrichr ex_R ex_labels double_0_05 default_logfc_threshold
     = Inr ([\<lparr> Cluster = ''0'', row = ex_row ''a'' (1 / 100) \<rparr>], [NoPathway double_0_05 ''2''])
   \<and> fle (Adjusted_P_value (ex_row ''a'' (1 / 100))) double_0_05
   \<and> (\<exists>qs. enrich_clusters ex_enrichr ex_R default_logfc_threshold (celltypes ex_labels) = Inr qs)"
proof -
  have r: "runGSEAPY ex_enrichr ex_R ex_labels double_0_05 default_logfc_threshold
     = Inr ([\<lparr> Cluster = ''0'', row = ex_row ''a'' (1 / 100) \<rparr>], [NoPathway double_0_05 ''2''])"
    using ex_gsea by (simp add: gsea_stage_def)
  from enrichment_rows_below_cutoff [OF r] r show ?thesis by auto
qed

section \<open>Properties of the table of differentially expressed genes\<close>

lemma deg_key_suffix_inj:
  assumes "k1 \<in> set deg_keys" "k2 \<in> set deg_keys" "g1 @ ''_'' @ k1 = g2 @ ''_'' @ k2"
  shows "g1 = g2 \<and> k1 = k2"
proof -
  from assms(3) have "take 3 (rev (g1 @ ''_'' @ k1)) = take 3 (rev (g2 @ ''_'' @ k2))"
    by simp
  with assms(1,2) have k: "k1 = k2"
    by (auto simp: deg_keys_def)
  with assms(3) show ?thesis by simp
qed

lemma dict_set_fresh: "k \<notin> fst ` set d \<Longrightarrow> dict_set d k v = d @ [(k, v)]"
  by (induction d) auto

lemma deg_dict_fresh:
  assumes "\<forall>p\<in>set ps. \<exists>c. result_field R (snd p) (fst p) = Inr c"
    and "distinct (map col_name ps)"
    and "\<forall>p\<in>set ps. col_name p \<notin> fst ` set d"
  shows "deg_dict R ps d
         = Inr (d @ map (\<lambda>p. (col_name p, projr (result_field R (snd p) (fst p)))) ps)"
  using assms
proof (induction ps arbitrary: d)
  case Nil
  then show ?case by simp
next
  case (Cons p ps)
  obtain g key where p: "p = (g, key)" by (cases p)
  from Cons.prems(1) obtain c where c: "result_field R key g = Inr c" by (auto simp: p)
  from Cons.prems(3) have fresh: "g @ ''_'' @ key \<notin> fst ` set d"
    by (simp add: p col_name_def)
  have d': "dict_set d (g @ ''_'' @ key) c = d @ [(col_name p, c)]"
    using dict_set_fresh [OF fresh] by (simp add: p col_name_def)
  have "deg_dict R ps (d @ [(col_name p, c)])
        = Inr ((d @ [(col_name p, c)]) @ map (\<lambda>p. (col_name p, projr (result_field R (snd p) (fst p)))) ps)"
  proof (rule Cons.IH)
    show "\<forall>p\<in>set ps. \<exists>c. result_field R (snd p) (fst p) = Inr c" using Cons.prems(1) by simp
    show "distinct (map col_name ps)" using Cons.prems(2) by simp
    show "\<forall>q\<in>set ps. col_name q \<notin> fst ` set (d @ [(col_name p, c)])"
    proof
      fix q assume q: "q \<in> set ps"
      then have "col_name q \<noteq> col_name p" using Cons.prems(2) by (metis distinct.simps(2) image_eqI list.simps(9) set_map)
      moreover have "col_name q \<notin> fst ` set d" using Cons.prems(3) q by simp
      ultimately show "col_name q \<notin> fst ` set (d @ [(col_name p, c)])" by simp
    qed
  qed
  then show ?case using d' by (simp add: p c)
qed

lemma distinct_group_key_pairs:
  "distinct groups \<Longrightarrow> distinct (group_key_pairs groups)"
  by (induction groups) (auto simp: group_key_pairs_def deg_keys_def)

lemma set_group_key_pairs:
  "set (group_key_pairs groups) = set groups \<times> set deg_keys"
  by (auto simp: group_key_pairs_def)

lemma distinct_col_names:
  assumes "distinct groups"
  shows "distinct (map col_name (group_key_pairs groups))"
proof -
  have "inj_on col_name (set (group_key_pairs groups))"
  proof (rule inj_onI)
    fix p q assume "p \<in> set (group_key_pairs groups)" "q \<in> set (group_key_pairs groups)"
      "col_name p = col_name q"
    then have "fst p = fst q \<and> snd p = snd q"
      using deg_key_suffix_inj [of "snd p" "snd q" "fst p" "fst q"]
      by (auto simp: set_group_key_pairs col_name_def)
    then show "p = q" by (simp add: prod_eq_iff)
  qed
  with distinct_group_key_pairs [OF assms] show ?thesis
    by (simp add: distinct_map)
qed

lemma result_field_tested:
  assumes "tested R n g" "key \<in> set deg_keys"
  shows "\<exists>c. result_field R key g = Inr c \<and> column_length c = n"
  using assms
  by (auto simp: tested_def deg_keys_def result_field_def field_def split: option.splits)

lemma length_group_key_pairs: "length (group_key_pairs groups) = 4 * length groups"
  by (induction groups) (simp_all add: group_key_pairs_def deg_keys_def)

lemma groups_of_Inr:
  "groups_of labels = Inr groups \<Longrightarrow> distinct groups \<and> set groups = set labels"
  by (auto simp: groups_of_def Let_def unique_def split: if_splits)

lemma col_names_groups:
  "map col_name (group_key_pairs groups)
   = concat (map (\<lambda>g. [g @ ''_names'', g @ ''_logfoldchanges'', g @ ''_scores'', g @ ''_pvals'']) groups)"
  by (induction groups) (simp_all add: group_key_pairs_def deg_keys_def col_name_def)

text \<open>
  Claim C8. When the marker-gene test returned, for every cluster, its fields with one
  entry per gene of the tested matrix, the table written to \<open>cluster_DEGs.csv\<close> has,
  for each cluster in order, the four columns named by the cluster followed by
  \<open>_names\<close>, \<open>_logfoldchanges\<close>, \<open>_scores\<close> and \<open>_pvals\<close>, all distinct, and one row
  per gene.
\<close>

theorem cluster_DEGs_shape:
  assumes "groups_of labels = Inr groups" and "\<forall>g\<in>set groups. tested R n g"
    and "labels \<noteq> []"
  shows "\<exists>df. cluster_DEGs R groups = Inr df
     \<and> df_columns df
         = concat (map (\<lambda>g. [g @ ''_names'', g @ ''_logfoldchanges'', g @ ''_scores'', g @ ''_pvals''])
                    groups)
     \<and> length (df_columns df) = 4 * length groups \<and> distinct (df_columns df)
     \<and> df_rows df = n \<and> list_all (\<lambda>c. column_length c = n) (df_data df)"
proof -
  define ps where "ps = group_key_pairs groups"
  define d where "d = map (\<lambda>p. (col_name p, projr (result_field R (snd p) (fst p)))) ps"
  from groups_of_Inr [OF assms(1)] have dist: "distinct groups" and sg: "set groups = set labels"
    by simp_all
  have fields: "\<exists>c. result_field R (snd p) (fst p) = Inr c \<and> column_length c = n"
    if "p \<in> set ps" for p
    using that assms(2) result_field_tested [of R n "fst p" "snd p"]
    by (auto simp: ps_def set_group_key_pairs)
  have "deg_dict R ps [] = Inr ([] @ d)"
    unfolding d_def
  proof (rule deg_dict_fresh)
    show "\<forall>p\<in>set ps. \<exists>c. result_field R (snd p) (fst p) = Inr c"
      using fields by blast
    show "distinct (map col_name ps)"
      unfolding ps_def by (rule distinct_col_names [OF dist])
    show "\<forall>p\<in>set ps. col_name p \<notin> fst ` set []" by simp
  qed
  then have dd: "deg_dict R (group_key_pairs groups) [] = Inr d" by (simp add: ps_def)
  have len: "\<forall>kc\<in>set d. column_length (snd kc) = n"
    using fields by (fastforce simp: d_def)
  from assms(3) sg have "groups \<noteq> []" by auto
  then have "ps \<noteq> []"
    using length_group_key_pairs [of groups] by (auto simp: ps_def)
  then obtain k c rest where dc: "d = (k, c) # rest"
    by (cases d) (auto simp: d_def)
  with len have c: "column_length c = n"
    and rest: "list_all (\<lambda>kc. column_length (snd kc) = column_length c) rest"
    by (simp_all add: list_all_iff)
  define df where "df = \<lparr> df_columns = map fst d, df_data = map snd d, df_rows = column_length c \<rparr>"
  have 1: "cluster_DEGs R groups = Inr df"
    using rest by (simp add: cluster_DEGs_def dd DataFrame_def dc df_def)
  have cols: "df_columns df = map col_name (group_key_pairs groups)"
    by (simp add: df_def d_def ps_def o_def)
  have 2: "df_columns df
         = concat (map (\<lambda>g. [g @ ''_names'', g @ ''_logfoldchanges'', g @ ''_scores'', g @ ''_pvals''])
                    groups)"
    by (simp only: cols col_names_groups)
  have 3: "length (df_columns df) = 4 * length groups"
    by (simp add: cols length_group_key_pairs)
  have 4: "distinct (df_columns df)"
    by (simp only: cols distinct_col_names [OF dist])
  have 5: "df_rows df = n" by (simp add: df_def c)
  have 6: "list_all (\<lambda>c. column_length c = n) (df_data df)"
    using len by (simp add: df_def list_all_iff)
  from 1 2 3 4 5 6 show ?thesis by blast
qed

lemma ex_groups: "groups_of ex_labels = Inr [''0'', ''1'', ''2'']"
  by code_simp

theorem cluster_DEGs_shape_witness:
  "groups_of ex_labels = Inr [''0'', ''1'', ''2'']
   \<and> tested ex_R 3 ''0'' \<and> tested ex_R 3 ''1'' \<and> tested ex_R 3 ''2'' \<and> ex_labels \<noteq> []
   \<and> (\<exists>df. cluster_DEGs ex_R [''0'', ''1'', ''2''] = Inr df
        \<and> df_columns df = [''0_names'', ''0_logfoldchanges'', ''0_scores'', ''0_pvals'',
             ''1_names'', ''1_logfoldchanges'', ''1_scores'', ''1_pvals'',
             ''2_names'', ''2_logfoldchanges'', ''2_scores'', ''2_pvals'']
        \<and> df_rows df = 3)"
proof -
  have t: "\<forall>g\<in>set [''0'', ''1'', ''2'']. tested ex_R 3 g"
    by (simp add: ex_tested)
  have n: "ex_labels \<noteq> []" by (simp add: ex_labels_def)
  from cluster_DEGs_shape [OF ex_groups t n]
  have E: "\<exists>df. cluster_DEGs ex_R [''0'', ''1'', ''2''] = Inr df
        \<and> df_columns df = [''0_names'', ''0_logfoldchanges'', ''0_scores'', ''0_pvals'',
             ''1_names'', ''1_logfoldchanges'', ''1_scores'', ''1_pvals'',
             ''2_names'', ''2_logfoldchanges'', ''2_scores'', ''2_pvals'']
        \<and> df_rows df = 3"
    by auto
  show ?thesis
    by (intro conjI) (rule ex_groups ex_tested n E)+
qed

section \<open>Properties of the quality filtering\<close>

lemma select_kept:
  "length xs = length keep \<Longrightarrow> select keep xs = map ((!) xs) (kept keep)"
  using nth_filter_zip [of keep xs] by (simp add: select_def kept_def)

lemma length_select: "length xs = length keep \<Longrightarrow> length (select keep xs) = length (kept keep)"
  by (simp add: select_kept)

lemma select_nth:
  "length xs = length keep \<Longrightarrow> j < length (kept keep) \<Longrightarrow> select keep xs ! j = xs ! (kept keep ! j)"
  by (simp add: select_kept)

lemma kept_bound: "j < length (kept keep) \<Longrightarrow> kept keep ! j < length keep \<and> keep ! (kept keep ! j)"
proof -
  assume "j < length (kept keep)"
  then have "kept keep ! j \<in> set (kept keep)" by simp
  then show ?thesis by (simp add: kept_def)
qed

lemma cells_filter_cells:
  "c \<in> set (cells (filter_cells m a)) \<Longrightarrow>
     m \<le> n_genes c \<and> (\<exists>c0\<in>set (cells a). cell_name c0 = cell_name c \<and> counts c0 = counts c
        \<and> n_genes c = detected (counts c0))"
  by (auto simp: filter_cells_def)

lemma genes_filter_cells: "genes (filter_cells m a) = genes a"
  by (simp add: filter_cells_def)

lemma foldl_map2_add:
  assumes "\<forall>r\<in>set rows. length r = length acc"
  shows "length (foldl (map2 (+)) acc rows) = length acc
       \<and> (\<forall>j<length acc. foldl (map2 (+)) acc rows ! j = acc ! j + sum_list (map (\<lambda>r. r ! j) rows))"
  using assms
proof (induction rows arbitrary: acc)
  case Nil
  then show ?case by simp
next
  case (Cons r rows)
  have l: "length (map2 (+) acc r) = length acc" using Cons.prems by simp
  have "\<forall>r'\<in>set rows. length r' = length (map2 (+) acc r)" using Cons.prems l by simp
  from Cons.IH [OF this] l Cons.prems show ?case by (simp add: add.assoc)
qed

lemma number_per_gene_nth:
  assumes wf: "\<forall>c\<in>set (cells a). length (counts c) = length (genes a)"
  shows "length (number_per_gene a) = length (genes a)"
    and "j < length (genes a) \<Longrightarrow> number_per_gene a ! j = cells_detecting a j"
proof -
  define rows where "rows = map (\<lambda>c. map (\<lambda>v. if v > 0 then 1 else (0::nat)) (counts c)) (cells a)"
  have r: "\<forall>r\<in>set rows. length r = length (replicate (length (genes a)) (0::nat))"
    using wf by (auto simp: rows_def)
  note f = foldl_map2_add [OF r]
  from f show "length (number_per_gene a) = length (genes a)"
    by (simp add: number_per_gene_def column_sums_def rows_def)
  assume j: "j < length (genes a)"
  have "sum_list (map (\<lambda>r. r ! j) rows) = length (filter (\<lambda>c. counts c ! j > 0) (cells a))"
    unfolding rows_def using wf j
  proof (induction "cells a" arbitrary: a)
    case Nil
    then show ?case by simp
  next
    case (Cons c cs)
    from Cons(2) [symmetric] Cons(3,4) Cons(1) [of "a\<lparr>cells := cs\<rparr>"]
    show ?case by simp
  qed
  with f j show "number_per_gene a ! j = cells_detecting a j"
    by (simp add: number_per_gene_def column_sums_def rows_def cells_detecting_def)
qed

lemma filter_genes_n_cells:
  assumes wf: "\<forall>c\<in>set (cells a). length (counts c) = length (genes a)"
    and j: "j < length (genes (filter_genes m a))"
  shows "m \<le> n_cells (genes (filter_genes m a) ! j)
       \<and> n_cells (genes (filter_genes m a) ! j) = cells_detecting (filter_genes m a) j"
proof -
  define npg where "npg = number_per_gene a"
  define keep where "keep = map (\<lambda>n. n \<ge> m) npg"
  define ann where "ann = map2 (\<lambda>g n. g \<lparr> n_cells := n \<rparr>) (genes a) npg"
  have ln: "length npg = length (genes a)"
    by (simp add: npg_def number_per_gene_nth(1) [OF wf])
  have lk: "length keep = length (genes a)" and la: "length ann = length keep"
    by (simp_all add: keep_def ln ann_def)
  have g: "genes (filter_genes m a) = select keep ann"
    and c: "cells (filter_genes m a) = map (\<lambda>c. c \<lparr> counts := select keep (counts c) \<rparr>) (cells a)"
    by (simp_all add: filter_genes_def Let_def keep_def npg_def ann_def)
  from j have jk: "j < length (kept keep)" by (simp add: g length_select [OF la])
  define k where "k = kept keep ! j"
  from kept_bound [OF jk] have kb: "k < length (genes a)" and kk: "keep ! k"
    by (simp_all add: k_def lk)
  have nk: "npg ! k = cells_detecting a k"
    by (simp add: npg_def number_per_gene_nth(2) [OF wf kb])
  have "genes (filter_genes m a) ! j = ann ! k"
    by (simp add: g select_nth [OF la jk] k_def)
  also have "ann ! k = (genes a ! k) \<lparr> n_cells := cells_detecting a k \<rparr>"
    using kb ln nk by (simp add: ann_def)
  finally have n: "n_cells (genes (filter_genes m a) ! j) = cells_detecting a k" by simp
  from kk kb ln nk have ge: "m \<le> cells_detecting a k" by (simp add: keep_def)
  have "filter (\<lambda>c. counts c ! j > 0) (cells (filter_genes m a))
        = map (\<lambda>c. c \<lparr> counts := select keep (counts c) \<rparr>) (filter (\<lambda>c. counts c ! k > 0) (cells a))"
    unfolding c filter_map o_def
    by (rule arg_cong [where f = "map _"], rule filter_cong)
       (use wf jk in \<open>simp_all add: select_nth lk k_def\<close>)
  then have "cells_detecting (filter_genes m a) j = cells_detecting a k"
    by (simp add: cells_detecting_def)
  with n ge show ?thesis by simp
qed

lemma cells_detecting_cong:
  "map counts (cells a) = map counts (cells b) \<Longrightarrow> cells_detecting a j = cells_detecting b j"
proof -
  assume "map counts (cells a) = map counts (cells b)"
  then have "length (filter (\<lambda>xs. xs ! j > 0) (map counts (cells a)))
           = length (filter (\<lambda>xs. xs ! j > 0) (map counts (cells b)))"
    by simp
  then show ?thesis by (simp add: cells_detecting_def filter_map o_def)
qed

lemma before_mt_filter_genes:
  "map n_cells (genes (before_mt_filter a)) = map n_cells (genes (filter_genes 3 (filter_cells 200 a)))"
  by (simp add: before_mt_filter_def calculate_qc_metrics_def mark_mt_def o_def)

lemma before_mt_filter_counts:
  "map counts (cells (before_mt_filter a)) = map counts (cells (filter_genes 3 (filter_cells 200 a)))"
  by (simp add: before_mt_filter_def calculate_qc_metrics_def mark_mt_def o_def Let_def)

lemma before_mt_filter_cells:
  assumes "c \<in> set (cells (before_mt_filter a))"
  shows "200 \<le> n_genes c \<and> (\<exists>c0\<in>set (cells a). cell_name c0 = cell_name c \<and> n_genes c = detected (counts c0))"
proof -
  from assms obtain c1 where c1: "c1 \<in> set (cells (filter_cells 200 a))"
    "cell_name c = cell_name c1" "n_genes c = n_genes c1"
    by (auto simp: before_mt_filter_def calculate_qc_metrics_def mark_mt_def filter_genes_def Let_def)
  from cells_filter_cells [OF c1(1)] c1(2,3) show ?thesis by auto
qed

text \<open>
  Claim C3, as amended. After the quality filtering every retained cell carries a
  detected-gene count \<open>n_genes\<close> of at least 200, counted over the genes of the input,
  and a mitochondrial percentage below 30, computed over the retained genes; every
  retained gene carries a count \<open>n_cells\<close> of at least 3, which is the number of cells
  detecting it among the cells that are there before the mitochondrial filter; the
  mitochondrial filter removes cells only.
\<close>

theorem quality_filter_thresholds:
  assumes "\<forall>c\<in>set (cells a). length (counts c) = length (genes a)"
  shows "(\<forall>c\<in>set (cells (quality_filter a)).
            200 \<le> n_genes c \<and> flt (pct_counts_mt c) (Finite 30)
            \<and> pct_counts_mt c
                = fmul (fdiv (sum_list (select (map mt (genes (quality_filter a))) (counts c)))
                             (sum_list (counts c))) 100
            \<and> (\<exists>c0\<in>set (cells a). cell_name c0 = cell_name c \<and> n_genes c = detected (counts c0)))
       \<and> (\<forall>j<length (genes (quality_filter a)).
            3 \<le> n_cells (genes (quality_filter a) ! j)
            \<and> n_cells (genes (quality_filter a) ! j) = cells_detecting (before_mt_filter a) j)
       \<and> genes (quality_filter a) = genes (before_mt_filter a)
       \<and> set (cells (quality_filter a)) \<subseteq> set (cells (before_mt_filter a))"
proof -
  define a1 where "a1 = filter_cells 200 a"
  define a2 where "a2 = filter_genes 3 a1"
  have g: "genes (quality_filter a) = genes (before_mt_filter a)"
    and s: "set (cells (quality_filter a)) \<subseteq> set (cells (before_mt_filter a))"
    by (auto simp: quality_filter_def filter_pct_counts_mt_def)
  have wf1: "\<forall>c\<in>set (cells a1). length (counts c) = length (genes a1)"
    using assms by (auto simp: a1_def filter_cells_def)
  have cellpart: "200 \<le> n_genes c \<and> flt (pct_counts_mt c) (Finite 30)
            \<and> pct_counts_mt c
                = fmul (fdiv (sum_list (select (map mt (genes (quality_filter a))) (counts c)))
                             (sum_list (counts c))) 100
            \<and> (\<exists>c0\<in>set (cells a). cell_name c0 = cell_name c \<and> n_genes c = detected (counts c0))"
    if c: "c \<in> set (cells (quality_filter a))" for c
  proof -
    from c have b: "c \<in> set (cells (before_mt_filter a))" and p: "flt (pct_counts_mt c) (Finite 30)"
      by (simp_all add: quality_filter_def filter_pct_counts_mt_def)
    from b have "pct_counts_mt c
                = fmul (fdiv (sum_list (select (map mt (genes (before_mt_filter a))) (counts c)))
                             (sum_list (counts c))) 100"
      by (auto simp: before_mt_filter_def calculate_qc_metrics_def Let_def)
    with before_mt_filter_cells [OF b] p show ?thesis by (simp add: g)
  qed
  have genepart: "3 \<le> n_cells (genes (quality_filter a) ! j)
            \<and> n_cells (genes (quality_filter a) ! j) = cells_detecting (before_mt_filter a) j"
    if j: "j < length (genes (quality_filter a))" for j
  proof -
    have l: "length (genes (before_mt_filter a)) = length (genes a2)"
      using before_mt_filter_genes [of a] by (metis a1_def a2_def length_map)
    from j have j2: "j < length (genes a2)" by (simp add: g l)
    have "n_cells (genes (before_mt_filter a) ! j) = map n_cells (genes (before_mt_filter a)) ! j"
      using j by (simp add: g)
    also have "\<dots> = n_cells (genes a2 ! j)"
      using j2 by (simp add: before_mt_filter_genes a1_def a2_def)
    finally have n: "n_cells (genes (quality_filter a) ! j) = n_cells (genes a2 ! j)"
      by (simp add: g)
    have d: "cells_detecting (before_mt_filter a) j = cells_detecting a2 j"
      by (rule cells_detecting_cong) (simp add: before_mt_filter_counts a1_def a2_def)
    from filter_genes_n_cells [OF wf1 j2 [unfolded a2_def]] n d show ?thesis
      by (simp add: a2_def)
  qed
  from cellpart genepart g s show ?thesis by blast
qed

lemma qc_input_wf: "\<forall>c\<in>set (cells qc_input). length (counts c) = length (genes qc_input)"
  by (simp add: qc_input_def qc_cell_def)

lemma qc_input_eval:
  "length (genes (quality_filter qc_input)) = 201"
  "map cell_name (cells (quality_filter qc_input)) = [''c1'', ''c2'']"
  "cells_detecting (quality_filter qc_input) 0 = 2"
  by code_simp+

theorem quality_filter_thresholds_witness:
  "list_all (\<lambda>c. length (counts c) = length (genes qc_input)) (cells qc_input)
   \<and> length (genes (quality_filter qc_input)) = 201
   \<and> map cell_name (cells (quality_filter qc_input)) = [''c1'', ''c2'']
   \<and> 3 \<le> n_cells (genes (quality_filter qc_input) ! 0)
   \<and> n_cells (genes (quality_filter qc_input) ! 0) = cells_detecting (before_mt_filter qc_input) 0"
proof -
  from quality_filter_thresholds [OF qc_input_wf]
  have "\<forall>j<length (genes (quality_filter qc_input)).
            3 \<le> n_cells (genes (quality_filter qc_input) ! j)
            \<and> n_cells (genes (quality_filter qc_input) ! j) = cells_detecting (before_mt_filter qc_input) j"
    by blast
  moreover have "0 < length (genes (quality_filter qc_input))"
    using qc_input_eval by simp
  ultimately have "3 \<le> n_cells (genes (quality_filter qc_input) ! 0)
            \<and> n_cells (genes (quality_filter qc_input) ! 0) = cells_detecting (before_mt_filter qc_input) 0"
    by blast
  with qc_input_wf qc_input_eval show ?thesis
    by (simp add: list_all_iff)
qed

text \<open>
  Claim C3 as stated fails: in the example the third cell passes the cell filter, makes
  every gene reach three cells, and is then removed by the mitochondrial filter, so each
  retained gene is detected in two retained cells only.
\<close>

theorem retained_gene_in_two_retained_cells:
  "\<not> (\<forall>j<length (genes (quality_filter qc_input)). 3 \<le> cells_detecting (quality_filter qc_input) j)"
proof
  assume a: "\<forall>j<length (genes (quality_filter qc_input)). 3 \<le> cells_detecting (quality_filter qc_input) j"
  have "0 < length (genes (quality_filter qc_input))"
    using qc_input_eval by simp
  with a have "3 \<le> cells_detecting (quality_filter qc_input) 0" by blast
  with qc_input_eval show False by simp
qed

section \<open>The resolution grid in double arithmetic\<close>

lemma floor_rat_numeral:
  "\<lfloor>numeral a / numeral b :: rat\<rfloor> = numeral a div numeral b"
  by (metis floor_divide_of_int_eq of_int_numeral)

lemma ceiling_rat_numeral:
  "\<lceil>numeral a / numeral b :: rat\<rceil> = - (- numeral a div numeral b)"
  using ceiling_divide_eq_div [of "numeral a" "numeral b", where ?'a = rat] by simp

lemmas fl_eval = fl_def quantum_def binade_def pow2_def round_half_even_def bit_length.simps
  floor_rat_numeral ceiling_rat_numeral

lemma fl_6_10: "fl (6 / 10) = 5404319552844595 / 2 ^ 53"
  by (simp add: fl_eval)
lemma fl_4_10: "fl (4 / 10) = 3602879701896397 / 2 ^ 53"
  by (simp add: fl_eval)
lemma fl_14_10: "fl (14 / 10) = 3152519739159347 / 2 ^ 51"
  by (simp add: fl_eval)
lemma fl_delta: "fl (fl (14 / 10) - fl (4 / 10)) = (2 ^ 53 - 1) / 2 ^ 53"
  by (simp add: fl_4_10 fl_14_10) (simp add: fl_eval)
lemma upt_6: "[0..<6] = [0, 1, 2, 3, 4, 5]"
  by code_simp
lemma list_update_5: "[a, b, c, d, e, f][5 := x] = [a, b, c, d, e, x]"
  by (simp add: eval_nat_numeral)

lemma linspace_step_grid: "linspace_step (fl (4 / 10)) (fl (14 / 10)) 6 = 7205759403792793 / 2 ^ 55"
  unfolding linspace_step_def fl_delta by (simp add: fl_eval)

lemma resolutions_values:
  "resolutions = [3602879701896397 / 2 ^ 53, 5404319552844595 / 2 ^ 53, 3602879701896397 / 2 ^ 52,
                  1, 5404319552844595 / 2 ^ 52, 3152519739159347 / 2 ^ 51]"
  unfolding resolutions_def linspace_def linspace_step_grid upt_6
  by (simp add: fl_4_10 fl_14_10 list_update_5) (simp add: fl_eval)


lemma resolutions_decimals: "resolutions = map fl [4 / 10, 6 / 10, 8 / 10, 1, 12 / 10, 14 / 10]"
  unfolding resolutions_values by (simp add: fl_eval)

text \<open>The exponent is the right one, and \<open>fl\<close> is within half a spacing of its argument.\<close>

lemma bit_length_bounds:
  "0 < n \<Longrightarrow> 2 ^ (bit_length n - 1) \<le> n \<and> n < 2 ^ bit_length n"
proof (induction n rule: bit_length.induct)
  case (1 n)
  show ?case
  proof (cases "n div 2 \<le> 0")
    case True
    with 1(2) have "n = 1" by linarith
    then show ?thesis by (simp add: bit_length.simps)
  next
    case False
    then have pos: "0 < n div 2" by simp
    with 1 have ih: "2 ^ (bit_length (n div 2) - 1) \<le> n div 2" "n div 2 < 2 ^ bit_length (n div 2)"
      by simp_all
    have bl: "bit_length n = Suc (bit_length (n div 2))"
      using 1(2) by (simp add: bit_length.simps [of n])
    have b1: "bit_length (n div 2) \<ge> 1"
      using pos by (simp add: bit_length.simps [of "n div 2"])
    then obtain k where k: "bit_length (n div 2) = Suc k" by (cases "bit_length (n div 2)") auto
    from ih have "2 * 2 ^ k \<le> 2 * (n div 2)" "2 * (n div 2) + 1 < 2 * 2 ^ Suc k"
      by (simp_all add: k)
    moreover have "2 * (n div 2) \<le> n" "n \<le> 2 * (n div 2) + 1" by linarith+
    ultimately show ?thesis by (simp add: bl k)
  qed
qed

lemma binade_bounds:
  assumes "0 < x"
  shows "pow2 (binade x) \<le> x \<and> x < pow2 (binade x + 1)"
proof (cases "x \<ge> 1")
  case True
  define n where "n = \<lfloor>x\<rfloor>"
  from True have n: "0 < n" by (simp add: n_def)
  from n obtain m where bl: "bit_length n = Suc m"
    by (simp add: bit_length.simps [of n])
  from bit_length_bounds [OF n] have b: "2 ^ m \<le> n" "n < 2 ^ Suc m"
    by (simp_all add: bl)
  have e: "binade x = int m"
    using True by (simp add: binade_def n_def [symmetric] bl)
  have "rat_of_int (2 ^ m) \<le> of_int n" using b(1) by (simp only: of_int_le_iff)
  also have "\<dots> \<le> x" by (simp add: n_def)
  finally have lo: "2 ^ m \<le> x" by simp
  have "x < of_int (n + 1)" unfolding n_def by linarith
  also have "of_int (n + 1) \<le> rat_of_int (2 ^ Suc m)"
    using b(2) by (simp only: of_int_le_iff)
  finally have hi: "x < 2 ^ Suc m" by simp
  have p: "pow2 (int m) = 2 ^ m" "pow2 (int m + 1) = 2 ^ Suc m"
    by (simp_all add: pow2_def nat_add_distrib)
  from lo hi show ?thesis by (simp only: e p)
next
  case False
  define c where "c = \<lceil>1 / x\<rceil>"
  define k where "k = bit_length (c - 1)"
  from False assms have y: "1 < 1 / x" by simp
  then have c2: "2 \<le> c" unfolding c_def by (simp add: le_ceiling_iff)
  then have c1: "0 < c - 1" by simp
  from bit_length_bounds [OF c1] have b: "2 ^ (k - 1) \<le> c - 1" "c - 1 < 2 ^ k"
    by (simp_all add: k_def)
  from c1 have k1: "k \<ge> 1" by (simp add: k_def bit_length.simps [of "c - 1"])
  have e: "binade x = - int k" using False by (simp add: binade_def c_def k_def)
  from b(2) have "c \<le> 2 ^ k" by simp
  then have "1 / x \<le> 2 ^ k" unfolding c_def by (simp add: ceiling_le_iff)
  then have lo: "1 / 2 ^ k \<le> x" using assms by (simp add: field_simps)
  from b(1) have "2 ^ (k - 1) < c" by simp
  then have "2 ^ (k - 1) < 1 / x" unfolding c_def by (simp add: less_ceiling_iff)
  then have hi: "x < 1 / 2 ^ (k - 1)" using assms by (simp add: field_simps)
  show ?thesis
  proof (cases "k = 1")
    case True
    with lo hi show ?thesis by (simp add: e pow2_def)
  next
    case False
    with k1 have "nat (int k - 1) = k - 1" "\<not> (0 \<le> - int k + 1)" by simp_all
    with lo hi k1 show ?thesis by (simp add: e pow2_def)
  qed
qed

lemma double_literals:
  "double_1e_2 = Finite (fl (1 / 100))" "double_0_05 = Finite (fl (5 / 100))"
  by (simp_all add: double_1e_2_def double_0_05_def fl_eval)

lemma round_half_even_error: "\<bar>of_int (round_half_even x) - x\<bar> \<le> 1 / 2"
proof -
  have "of_int \<lfloor>x\<rfloor> \<le> x" "x < of_int \<lfloor>x\<rfloor> + 1" by linarith+
  then show ?thesis by (auto simp: round_half_even_def)
qed

lemma pow2_pos: "0 < pow2 e"
  by (simp add: pow2_def)

lemma fl_error: "\<bar>fl x - x\<bar> \<le> quantum \<bar>x\<bar> / 2"
proof (cases "x = 0")
  case True
  then show ?thesis using pow2_pos [of "max (binade 0 - 52) (- 1074)"] by (simp add: fl_def quantum_def)
next
  case False
  define q where "q = quantum \<bar>x\<bar>"
  define m where "m = round_half_even (\<bar>x\<bar> / q)"
  have q: "0 < q" by (simp add: q_def quantum_def pow2_pos)
  have "\<bar>of_int m - \<bar>x\<bar> / q\<bar> \<le> 1 / 2" unfolding m_def by (rule round_half_even_error)
  then have "\<bar>of_int m - \<bar>x\<bar> / q\<bar> * q \<le> 1 / 2 * q" using q by (simp only: mult_le_cancel_right_pos)
  moreover have "\<bar>of_int m - \<bar>x\<bar> / q\<bar> * q = \<bar>of_int m * q - \<bar>x\<bar>\<bar>"
  proof -
    have "\<bar>of_int m - \<bar>x\<bar> / q\<bar> * q = \<bar>(of_int m - \<bar>x\<bar> / q) * q\<bar>"
      using q by (simp add: abs_mult)
    also have "(of_int m - \<bar>x\<bar> / q) * q = of_int m * q - \<bar>x\<bar>"
      using q by (simp add: left_diff_distrib)
    finally show ?thesis .
  qed
  ultimately have a: "\<bar>of_int m * q - \<bar>x\<bar>\<bar> \<le> q / 2" by simp
  have "fl x - x = sgn x * (of_int m * q - \<bar>x\<bar>)"
    using False by (simp add: fl_def q_def m_def right_diff_distrib mult.assoc sgn_mult_abs)
  then have "\<bar>fl x - x\<bar> = \<bar>of_int m * q - \<bar>x\<bar>\<bar>"
    using False by (simp add: abs_mult abs_sgn_eq)
  with a show ?thesis by (simp add: q_def)
qed

section \<open>Properties of the automatic resolution search\<close>

lemma square_nth: "square n M \<Longrightarrow> x < n \<Longrightarrow> length (M ! x) = n"
  by (simp add: square_def list_all_length)








text \<open>The number of workers, when there is one at least, does not change the result.\<close>

lemma pool_map_workers:
  "1 \<le> p \<Longrightarrow> 1 \<le> q \<Longrightarrow> pool_map p f xs = pool_map q f xs"
  by (simp add: pool_map_def)































section \<open>Properties of the cluster labels and the annotation matrix\<close>

lemma digit_char_props:
  assumes "d < 10"
  shows "is_digit (digit_char d)" "digit_val (digit_char d) = d" "\<not> is_space (digit_char d)"
    "digit_char d \<noteq> CHR ''-''" "digit_char d \<noteq> CHR ''+''"
proof -
  from assms have "d \<in> {0, 1, 2, 3, 4, 5, 6, 7, 8, 9}" by auto
  then show "is_digit (digit_char d)" "digit_val (digit_char d) = d" "\<not> is_space (digit_char d)"
    "digit_char d \<noteq> CHR ''-''" "digit_char d \<noteq> CHR ''+''"
    by (auto simp: digit_char_def is_digit_def digit_val_def is_space_def)
qed

lemma parse_digits_all:
  "list_all is_digit ds \<Longrightarrow> ds \<noteq> [] \<or> b \<Longrightarrow> parse_digits b acc ds = Some (digits_value acc ds)"
proof (induction ds arbitrary: b acc)
  case Nil
  then show ?case by (simp add: digits_value_def)
next
  case (Cons c ds)
  then have "parse_digits True (10 * acc + digit_val c) ds = Some (digits_value (10 * acc + digit_val c) ds)"
    by simp
  with Cons.prems show ?case by (simp add: digits_value_def)
qed

lemma str_nat_digits: "list_all is_digit (str_nat n) \<and> str_nat n \<noteq> [] \<and> digits_value 0 (str_nat n) = n"
proof (induction n rule: str_nat.induct)
  case (1 n)
  show ?case
  proof (cases "n < 10")
    case True
    then show ?thesis
      by (simp add: str_nat.simps [of n] digit_char_props digits_value_def)
  next
    case False
    have m: "n mod 10 < 10" by simp
    from 1 [OF False] False show ?thesis
      by (simp add: str_nat.simps [of n] digit_char_props [OF m] digits_value_def)
  qed
qed

lemma str_nat_hd: "\<exists>c cs. str_nat n = c # cs \<and> is_digit c"
proof -
  from str_nat_digits [of n] obtain c cs where "str_nat n = c # cs" "list_all is_digit (c # cs)"
    by (cases "str_nat n") auto
  then show ?thesis by simp
qed

lemma is_digit_not_space: "is_digit c \<Longrightarrow> \<not> is_space c"
  by (auto simp: is_digit_def is_space_def)

lemma is_digit_not_sign: "is_digit c \<Longrightarrow> c \<noteq> CHR ''-'' \<and> c \<noteq> CHR ''+''"
  by (auto simp: is_digit_def)

lemma strip_digits: "list_all is_digit ds \<Longrightarrow> strip ds = ds"
proof -
  assume a: "list_all is_digit ds"
  have 1: "dropWhile is_space ds = ds"
    using a by (cases ds) (auto simp: is_digit_not_space)
  have "list_all is_digit (rev ds)" using a by (simp add: list_all_iff)
  then have 2: "dropWhile is_space (rev ds) = rev ds"
    by (cases "rev ds") (auto simp: is_digit_not_space)
  show ?thesis by (simp add: strip_def 1 2)
qed

lemma py_int_str_nat: "py_int (str_nat n) = Some (int n)"
proof -
  from str_nat_digits [of n] have d: "list_all is_digit (str_nat n)" "str_nat n \<noteq> []"
    "digits_value 0 (str_nat n) = n" by simp_all
  from str_nat_hd [of n] obtain c cs where c: "str_nat n = c # cs" "is_digit c" by blast
  from parse_digits_all [OF d(1), of False 0] d(2,3)
  have p: "parse_digits False 0 (c # cs) = Some n" by (simp add: c)
  have s: "strip (str_nat n) = c # cs"
    using strip_digits [OF d(1)] by (simp only: c)
  show ?thesis
    unfolding py_int_def s using is_digit_not_sign [OF c(2)]
    by (simp only: list.case if_False p option.map)
qed

lemma str_nat_inject: "str_nat m = str_nat n \<longleftrightarrow> m = n"
  by (metis py_int_str_nat option.inject of_nat_eq_iff)

lemma sorted_distinct_upt:
  assumes "sorted ns" "distinct ns" "set ns = {0..<k}"
  shows "ns = [0..<k]"
  by (rule sorted_distinct_set_unique [OF assms(1,2)]) (simp_all add: assms(3))

lemma groups_of_str_nat:
  assumes "set ms = {0..<k}"
  shows "groups_of (map str_nat ms) = Inr (map str_nat [0..<k])"
proof -
  define f where "f = (\<lambda>s. the (py_int s))"
  define u where "u = unique (map str_nat ms)"
  define xs where "xs = sort_key f u"
  define ns where "ns = map (\<lambda>s. nat (f s)) xs"
  have fu: "f (str_nat n) = int n" for n by (simp add: f_def py_int_str_nat)
  have set_u: "set u = str_nat ` {0..<k}" and dist_u: "distinct u"
    using assms by (simp_all add: u_def unique_def)
  have ok: "list_all (\<lambda>s. py_int s \<noteq> None) u"
    by (auto simp: list_all_iff set_u py_int_str_nat)
  have set_xs: "set xs = str_nat ` {0..<k}" and dist_xs: "distinct xs"
    by (simp_all add: xs_def set_u dist_u)
  have xs_ns: "xs = map str_nat ns"
  proof -
    have "map (\<lambda>s. str_nat (nat (f s))) xs = xs"
      by (rule map_idI) (auto simp: set_xs fu)
    then show ?thesis by (simp add: ns_def o_def)
  qed
  have "sorted (map f xs)" by (simp add: xs_def)
  moreover have "map f xs = map int ns"
    by (simp add: ns_def o_def) (auto simp: set_xs fu)
  ultimately have "sorted (map int ns)" by simp
  then have s: "sorted ns" by (simp add: sorted_map sorted_wrt_iff_nth_less)
  from dist_xs have d: "distinct ns" by (simp add: xs_ns distinct_map)
  have "set ns = (\<lambda>s. nat (f s)) ` str_nat ` {0..<k}" by (simp add: ns_def set_xs)
  also have "\<dots> = {0..<k}" by (simp add: image_image fu)
  finally have "ns = [0..<k]" using s d by (intro sorted_distinct_upt) 
  with xs_ns have "xs = map str_nat [0..<k]" by simp
  with ok show ?thesis
    by (simp add: groups_of_def Let_def u_def [symmetric] f_def [symmetric] xs_def [symmetric])
qed

lemma py_index_nat: "j < k \<Longrightarrow> py_index k (int j) = Inr j"
  by (simp add: py_index_def)

lemma length_cluster_mean: "length (cluster_mean a g) = raw_n_vars a"
  by (simp add: cluster_mean_def mean_axis0_def)

lemma set_column_props:
  assumes "length mat = n" "\<forall>r\<in>set mat. length r = k" "length v = n" "j < k"
  shows "length (set_column mat j v) = n" "\<forall>r\<in>set (set_column mat j v). length r = k"
    "\<forall>i<n. \<forall>c<k. set_column mat j v ! i ! c = (if c = j then v ! i else mat ! i ! c)"
  using assms by (auto simp: set_column_def set_zip)

lemma fill_means_in_bounds:
  assumes "\<forall>j\<in>set js. j < k" "length mat = raw_n_vars a" "\<forall>r\<in>set mat. length r = k"
  shows "\<exists>mat'. fill_means a k (map str_nat js) mat = Inr mat'
       \<and> length mat' = raw_n_vars a \<and> (\<forall>r\<in>set mat'. length r = k)
       \<and> (\<forall>i<raw_n_vars a. \<forall>c<k. mat' ! i ! c
             = (if c \<in> set js then cluster_mean a (str_nat c) ! i else mat ! i ! c))"
  using assms
proof (induction js arbitrary: mat)
  case Nil
  then show ?case by simp
next
  case (Cons j js)
  define mat1 where "mat1 = set_column mat j (cluster_mean a (str_nat j))"
  from Cons.prems(1) have j: "j < k" and js: "\<forall>j\<in>set js. j < k" by simp_all
  note sc = set_column_props [OF Cons.prems(2,3) length_cluster_mean [of a "str_nat j"] j,
      folded mat1_def]
  from Cons.IH [OF js sc(1,2)] obtain mat' where
    m: "fill_means a k (map str_nat js) mat1 = Inr mat'" "length mat' = raw_n_vars a"
       "\<forall>r\<in>set mat'. length r = k"
       "\<forall>i<raw_n_vars a. \<forall>c<k. mat' ! i ! c
             = (if c \<in> set js then cluster_mean a (str_nat c) ! i else mat1 ! i ! c)"
    by blast
  have run: "fill_means a k (map str_nat (j # js)) mat = Inr mat'"
    by (simp add: py_int_str_nat py_index_nat [OF j] mat1_def [symmetric] m(1))
  have "\<forall>i<raw_n_vars a. \<forall>c<k. mat' ! i ! c
             = (if c \<in> set (j # js) then cluster_mean a (str_nat c) ! i else mat ! i ! c)"
    using m(4) sc(3) by auto
  with run m(2,3) show ?case by blast
qed

text \<open>
  Claim C10, as amended. In an h5ad run the clustering of line 230 replaces the labels of
  the retained cells by the community numbers it finds; when these are the numbers
  \<open>0\<close> to \<open>k - 1\<close>, the groups are their texts in order, every write \<open>mat[:, int(g)]\<close>
  is inside the \<open>k\<close> columns, and column \<open>c\<close> holds the mean raw expression of the cluster
  labelled \<open>c\<close>, whatever labels \<open>--clusters\<close> named.
\<close>

theorem annotation_in_bounds_after_clustering:
  assumes "set (lv [0..<length (obs_louvain (h5ad_subset cs a))] res) = {0..<k}"
  shows "\<exists>mat. h5ad_annotation lv res cs a = Inr (map str_nat [0..<k], mat)
       \<and> obs_louvain (fixed_clustering lv res (h5ad_subset cs a))
           = map str_nat (lv [0..<length (obs_louvain (h5ad_subset cs a))] res)
       \<and> length mat = raw_n_vars a \<and> (\<forall>r\<in>set mat. length r = k)
       \<and> (\<forall>i<raw_n_vars a. \<forall>c<k.
             mat ! i ! c = cluster_mean (fixed_clustering lv res (h5ad_subset cs a)) (str_nat c) ! i)"
proof -
  define b where "b = fixed_clustering lv res (h5ad_subset cs a)"
  have lab: "obs_louvain b = map str_nat (lv [0..<length (obs_louvain (h5ad_subset cs a))] res)"
    and nv: "raw_n_vars b = raw_n_vars a"
    by (simp_all add: b_def fixed_clustering_def h5ad_subset_def Let_def)
  have g: "groups_of (obs_louvain b) = Inr (map str_nat [0..<k])"
    unfolding lab by (rule groups_of_str_nat [OF assms])
  have "\<exists>mat'. fill_means b k (map str_nat [0..<k]) (replicate (raw_n_vars b) (replicate k (Finite 0))) = Inr mat'
       \<and> length mat' = raw_n_vars b \<and> (\<forall>r\<in>set mat'. length r = k)
       \<and> (\<forall>i<raw_n_vars b. \<forall>c<k. mat' ! i ! c
             = (if c \<in> set [0..<k] then cluster_mean b (str_nat c) ! i
                else replicate (raw_n_vars b) (replicate k (Finite 0)) ! i ! c))"
    by (rule fill_means_in_bounds) simp_all
  then obtain mat where
    m: "fill_means b k (map str_nat [0..<k]) (replicate (raw_n_vars b) (replicate k (Finite 0))) = Inr mat"
       "length mat = raw_n_vars b" "\<forall>r\<in>set mat. length r = k"
       "\<forall>i<raw_n_vars b. \<forall>c<k. mat ! i ! c = cluster_mean b (str_nat c) ! i"
    by auto
  have 1: "h5ad_annotation lv res cs a = Inr (map str_nat [0..<k], mat)"
    by (simp add: h5ad_annotation_def b_def [symmetric] cluster_mean_exp_def g m(1))
  have 2: "obs_louvain (fixed_clustering lv res (h5ad_subset cs a))
           = map str_nat (lv [0..<length (obs_louvain (h5ad_subset cs a))] res)"
    using lab by (simp only: b_def)
  have 3: "length mat = raw_n_vars a" using m(2) by (simp only: nv)
  have 4: "\<forall>i<raw_n_vars a. \<forall>c<k.
             mat ! i ! c = cluster_mean (fixed_clustering lv res (h5ad_subset cs a)) (str_nat c) ! i"
    using m(4) [unfolded nv] by (simp only: b_def)
  show ?thesis
    by (intro exI [of _ mat] conjI) (rule 1 2 3 4 m(3))+
qed

lemma ex_h5ad_subset: "obs_louvain (h5ad_subset ''3,5'' ex_h5ad) = [''3'', ''5'', ''3'']"
  by code_simp

lemma ex_h5ad_louvain: "set (ex_louvain [0..<length (obs_louvain (h5ad_subset ''3,5'' ex_h5ad))] (6 / 10)) = {0..<2}"
  unfolding ex_h5ad_subset by (auto simp: ex_louvain_def upt_conv_Cons)

theorem annotation_in_bounds_after_clustering_witness:
  "set (ex_louvain [0..<length (obs_louvain (h5ad_subset ''3,5'' ex_h5ad))] (6 / 10)) = {0..<2}
   \<and> (\<exists>mat. h5ad_annotation ex_louvain (6 / 10) ''3,5'' ex_h5ad = Inr (map str_nat [0..<2], mat)
          \<and> length mat = raw_n_vars ex_h5ad)"
proof -
  from annotation_in_bounds_after_clustering [of ex_louvain "''3,5''" ex_h5ad "6 / 10" 2,
      OF ex_h5ad_louvain]
  have "\<exists>mat. h5ad_annotation ex_louvain (6 / 10) ''3,5'' ex_h5ad = Inr (map str_nat [0..<2], mat)
          \<and> length mat = raw_n_vars ex_h5ad"
    by blast
  with ex_h5ad_louvain show ?thesis by (rule conjI)
qed

text \<open>
  Claim C10 as stated fails: the run on the stored object with \<open>--clusters 3,5\<close> retains
  the cells labelled 3 and 5, clusters them again into the communities 0 and 1, and fills
  both columns of the matrix without an error.
\<close>

theorem h5ad_subset_3_5_annotation_in_bounds:
  "obs_louvain (h5ad_subset ''3,5'' ex_h5ad) = [''3'', ''5'', ''3'']
   \<and> h5ad_annotation ex_louvain (6 / 10) ''3,5'' ex_h5ad
       = Inr ([''0'', ''1''], [[Finite 2, Finite 0], [Finite 1, Finite 4]])"
  by code_simp

text \<open>
  Without the clustering of line 230 the labels 3 and 5 would index a matrix of two
  columns out of its bounds.
\<close>

lemma labels_3_5_out_of_bounds: "cluster_mean_exp (h5ad_subset ''3,5'' ex_h5ad) = Inl IndexError"
  by code_simp

end
